theory Spec2Isabelle
  imports Complex_Main "HOL-Library.Word"
begin

section \<open>Arrays and images\<close>

text \<open>
  A two-dimensional array is a list of rows; a frame of shape H x W x 3 is a
  two-dimensional array of pixels, a pixel being the triple of its R, G and B samples.
  NumPy arrays of integer type carry \<open>int\<close> samples with the casts written out;
  PIL images carry 8-bit words.
\<close>

type_synonym 'a array2 = "'a list list"
type_synonym 'a rgb = "'a \<times> 'a \<times> 'a"
type_synonym 'a rgba = "'a \<times> 'a \<times> 'a \<times> 'a"

definition shape_ok :: "nat \<Rightarrow> nat \<Rightarrow> 'a array2 \<Rightarrow> bool" where
  "shape_ok h w a = (length a = h \<and> list_all (\<lambda>row. length row = w) a)"

definition map_array :: "('a \<Rightarrow> 'b) \<Rightarrow> 'a array2 \<Rightarrow> 'b array2" where
  "map_array f a = map (map f) a"

definition map_rgb :: "('a \<Rightarrow> 'b) \<Rightarrow> 'a rgb \<Rightarrow> 'b rgb" where
  "map_rgb f p = (case p of (r, g, b) \<Rightarrow> (f r, f g, f b))"

definition red :: "'a rgb \<Rightarrow> 'a" where "red p = fst p"
definition green :: "'a rgb \<Rightarrow> 'a" where "green p = fst (snd p)"
definition blue :: "'a rgb \<Rightarrow> 'a" where "blue p = snd (snd p)"

text \<open>\<^verbatim>\<open>np.stack([r, g, b], axis=2)\<close> of three arrays of one shape.\<close>

definition stack :: "'a array2 \<Rightarrow> 'a array2 \<Rightarrow> 'a array2 \<Rightarrow> 'a rgb array2" where
  "stack r g b = map2 (\<lambda>rr gb. zip rr (zip (fst gb) (snd gb))) r (zip g b)"

text \<open>
  \<^verbatim>\<open>np.roll(a, s, axis=1)\<close> on one row: NumPy reduces the shift modulo the length
  (modulo 1 on an empty axis) and, when the offset is not 0, writes
  \<^verbatim>\<open>a[:-offset]\<close> to \<^verbatim>\<open>result[offset:]\<close> and \<^verbatim>\<open>a[-offset:]\<close> to
  \<^verbatim>\<open>result[:offset]\<close>.
\<close>

definition roll_row :: "int \<Rightarrow> 'a list \<Rightarrow> 'a list" where
  "roll_row s xs =
     (let n = length xs;
          offset = nat (s mod int (if n = 0 then 1 else n))
      in if offset \<noteq> 0 then drop (n - offset) xs @ take (n - offset) xs else xs)"

definition roll :: "int \<Rightarrow> 'a array2 \<Rightarrow> 'a array2" where
  "roll s a = map (roll_row s) a"

section \<open>Casts and clipping\<close>

definition clip :: "'a::linorder \<Rightarrow> 'a \<Rightarrow> 'a \<Rightarrow> 'a" where
  "clip x lo hi = min (max x lo) hi"

text \<open>Integer casts of NumPy wrap around.\<close>

definition astype_int16 :: "int \<Rightarrow> int" where
  "astype_int16 x = (x + 32768) mod 65536 - 32768"

definition astype_uint8 :: "int \<Rightarrow> int" where
  "astype_uint8 x = x mod 256"

text \<open>A cast from floating point to an integer type truncates towards zero.\<close>

definition trunc :: "real \<Rightarrow> int" where
  "trunc x = (if 0 \<le> x then \<lfloor>x\<rfloor> else \<lceil>x\<rceil>)"

text \<open>
  A binary64 operation returns its exact result rounded to 53 significant bits, ties to the
  even neighbour (exponent range left aside: nothing here comes near it).
\<close>

definition round_even :: "real \<Rightarrow> int" where
  "round_even x =
     (let f = \<lfloor>x\<rfloor>; d = x - of_int f
      in if d < 1 / 2 then f else if 1 / 2 < d then f + 1 else if even f then f else f + 1)"

definition binary64 :: "real \<Rightarrow> real" where
  "binary64 x =
     (if x = 0 then 0
      else let q = 2 powr (of_int \<lfloor>log 2 \<bar>x\<bar>\<rfloor> - 52)
           in of_int (round_even (x / q)) * q)"

section \<open>The two precomputed overlays\<close>

text \<open>
  The filters of PIL are not part of the repository: the Gaussian blur, the unsharp mask
  and the in-place alpha compositing are parameters of the model.
\<close>

type_synonym byte = "8 word"

record pil_filters =
  gaussian_blur :: "byte rgba array2 \<Rightarrow> byte rgba array2"
  unsharp_mask :: "byte rgb array2 \<Rightarrow> byte rgb array2"
  alpha_composite :: "byte rgba array2 \<Rightarrow> byte rgba array2 \<Rightarrow> byte rgba array2"

text \<open>\<^verbatim>\<open>Image.new("RGBA", (w, h), (0,0,0,0))\<close>.\<close>

definition image_new :: "nat \<Rightarrow> nat \<Rightarrow> 'a \<Rightarrow> 'a array2" where
  "image_new w h colour = replicate h (replicate w colour)"

text \<open>The errors that PIL raises on the paths of the scanline generator.\<close>

datatype error = ValueError | OverflowError

text \<open>
  \<^verbatim>\<open>draw.rectangle([x0, y0, x1, y1], fill=...)\<close>. PIL first builds the ink: every
  component of the fill is read as a C int (\<^verbatim>\<open>OverflowError\<close> outside its range) and
  clipped to 0..255. It then refuses a box with \<open>x1 < x0\<close> or \<open>y1 < y0\<close>
  (\<^verbatim>\<open>ValueError\<close>). Otherwise both corners belong to the box, which is clipped to the
  image, and the pixels inside are overwritten.
\<close>

definition c_int :: "int \<Rightarrow> bool" where
  "c_int v = (- 2147483648 \<le> v \<and> v \<le> 2147483647)"

definition ink :: "int \<Rightarrow> byte" where
  "ink v = word_of_int (clip v 0 255)"

definition getink :: "int rgba \<Rightarrow> error + byte rgba" where
  "getink fill =
     (case fill of (r, g, b, a) \<Rightarrow>
        if c_int r \<and> c_int g \<and> c_int b \<and> c_int a then Inr (ink r, ink g, ink b, ink a)
        else Inl OverflowError)"

definition fill_box :: "'a array2 \<Rightarrow> int \<Rightarrow> int \<Rightarrow> int \<Rightarrow> int \<Rightarrow> 'a \<Rightarrow> 'a array2" where
  "fill_box img x0 y0 x1 y1 c =
     map (\<lambda>(j, row).
            map (\<lambda>(i, p). if x0 \<le> int i \<and> int i \<le> x1 \<and> y0 \<le> int j \<and> int j \<le> y1
                           then c else p)
                (enumerate 0 row))
         (enumerate 0 img)"

definition rectangle ::
  "byte rgba array2 \<Rightarrow> int \<Rightarrow> int \<Rightarrow> int \<Rightarrow> int \<Rightarrow> int rgba \<Rightarrow> error + byte rgba array2" where
  "rectangle img x0 y0 x1 y1 fill =
     (case getink fill of
        Inl e \<Rightarrow> Inl e
      | Inr c \<Rightarrow> if x1 < x0 \<or> y1 < y0 then Inl ValueError else Inr (fill_box img x0 y0 x1 y1 c))"

text \<open>
  The \<^verbatim>\<open>while y < h\<close> loop of \<^verbatim>\<open>make_scanline_image\<close>. An error of
  \<^verbatim>\<open>draw.rectangle\<close> leaves the loop. Nothing in the source bounds
  \<^verbatim>\<open>line_height + gap\<close> from below, so the loop is partial: \<open>None\<close> is the run that
  never leaves the loop.
\<close>

partial_function (option) scan_loop ::
  "int \<Rightarrow> int \<Rightarrow> int \<Rightarrow> int \<Rightarrow> int rgba \<Rightarrow> byte rgba array2 \<Rightarrow> int \<Rightarrow>
   (error + byte rgba array2) option"
where
  "scan_loop w h line_height gap fill img y =
     (if y < h
      then (case rectangle img 0 y w (min h (y + line_height - 1)) fill of
              Inl e \<Rightarrow> Some (Inl e)
            | Inr img' \<Rightarrow> scan_loop w h line_height gap fill img' (y + (line_height + gap)))
      else Some (Inr img))"

text \<open>
  \<^verbatim>\<open>alpha_line = int(255 * intensity)\<close>: the binary64 product, truncated. The image
  before the blur:
\<close>

definition alpha_line :: "real \<Rightarrow> int" where
  "alpha_line intensity = trunc (binary64 (255 * intensity))"

definition scanline_bands ::
  "nat \<Rightarrow> nat \<Rightarrow> real \<Rightarrow> int \<Rightarrow> int \<Rightarrow> (error + byte rgba array2) option" where
  "scanline_bands w h intensity line_height gap =
     (let img = image_new w h (0, 0, 0, 0)
      in scan_loop (int w) (int h) line_height gap (0, 0, 0, alpha_line intensity) img 0)"

definition make_scanline_image ::
  "pil_filters \<Rightarrow> nat \<Rightarrow> nat \<Rightarrow> real \<Rightarrow> int \<Rightarrow> int \<Rightarrow> (error + byte rgba array2) option" where
  "make_scanline_image pil w h intensity line_height gap =
     (case scanline_bands w h intensity line_height gap of
        None \<Rightarrow> None
      | Some (Inl e) \<Rightarrow> Some (Inl e)
      | Some (Inr img) \<Rightarrow> Some (Inr (gaussian_blur pil img)))"

text \<open>
  \<^verbatim>\<open>make_vignette_mask\<close>. The source computes in binary64 and stores the mask in
  binary32; the model computes in the reals, so its values are the ones the floating-point
  results approximate.
\<close>

definition vign :: "nat \<Rightarrow> nat \<Rightarrow> real \<Rightarrow> nat \<Rightarrow> nat \<Rightarrow> real" where
  "vign w h strength x y =
     (let cx = real w / 2; cy = real h / 2;
          max_dist = sqrt (cx * cx + cy * cy);
          dist = sqrt ((real x - cx)\<^sup>2 + (real y - cy)\<^sup>2)
      in clip (1 - strength * (dist / max_dist)) 0 1)"

definition make_vignette_mask :: "nat \<Rightarrow> nat \<Rightarrow> real \<Rightarrow> real rgb array2" where
  "make_vignette_mask w h strength =
     map (\<lambda>y. map (\<lambda>x. let v = vign w h strength x y in (v, v, v)) [0..<w]) [0..<h]"

section \<open>The per-frame transform\<close>

definition shift_of :: "int \<Rightarrow> int" where
  "shift_of width = max 1 (width div 640 * 2)"

definition chromatic :: "int \<Rightarrow> int rgb array2 \<Rightarrow> int rgb array2" where
  "chromatic width img =
     (let shift = shift_of width;
          r = roll (- shift) (map_array red img);
          g = map_array green img;
          b = roll shift (map_array blue img)
      in map_array (map_rgb astype_int16) (stack r g b))"

text \<open>
  Contrast and brightness: \<^verbatim>\<open>128 + 1.06 * (combined - 128) + 4\<close>, the subtraction in
  int16 and the rest in floating point (here: in the reals), then clipped and cast.
\<close>

definition contrast_sample :: "int \<Rightarrow> int" where
  "contrast_sample c =
     astype_uint8 (trunc (clip (128 + 1.06 * real_of_int (astype_int16 (c - 128)) + 4) 0 255))"

definition contrast :: "int rgb array2 \<Rightarrow> int rgb array2" where
  "contrast combined = map_array (map_rgb contrast_sample) combined"

text \<open>
  Film grain: \<open>noise\<close> is the int16 array drawn for this call; the sum is an int16 sum.
\<close>

definition grain_sample :: "int \<Rightarrow> int \<Rightarrow> int" where
  "grain_sample c n = astype_uint8 (clip (astype_int16 (astype_int16 c + n)) 0 255)"

definition zip_rgb :: "('a \<Rightarrow> 'b \<Rightarrow> 'c) \<Rightarrow> 'a rgb \<Rightarrow> 'b rgb \<Rightarrow> 'c rgb" where
  "zip_rgb f p q = (case p of (r, g, b) \<Rightarrow> case q of (r', g', b') \<Rightarrow> (f r r', f g g', f b b'))"

definition zip_array :: "('a \<Rightarrow> 'b \<Rightarrow> 'c) \<Rightarrow> 'a array2 \<Rightarrow> 'b array2 \<Rightarrow> 'c array2" where
  "zip_array f a b = map2 (map2 f) a b"

definition grain :: "int rgb array2 \<Rightarrow> int rgb array2 \<Rightarrow> int rgb array2" where
  "grain noise combined = zip_array (zip_rgb grain_sample) combined noise"

text \<open>\<^verbatim>\<open>Image.fromarray\<close> of a uint8 array, and \<^verbatim>\<open>np.asarray\<close> back.\<close>

definition fromarray :: "int rgb array2 \<Rightarrow> byte rgb array2" where
  "fromarray a = map_array (map_rgb word_of_int) a"

definition asarray :: "byte rgb array2 \<Rightarrow> int rgb array2" where
  "asarray im = map_array (map_rgb uint) im"

definition sharpen :: "pil_filters \<Rightarrow> int rgb array2 \<Rightarrow> byte rgb array2" where
  "sharpen pil combined = unsharp_mask pil (fromarray combined)"

definition to_rgba :: "byte rgb \<Rightarrow> byte rgba" where
  "to_rgba p = (case p of (r, g, b) \<Rightarrow> (r, g, b, 255))"

definition to_rgb :: "byte rgba \<Rightarrow> byte rgb" where
  "to_rgb p = (case p of (r, g, b, a) \<Rightarrow> (r, g, b))"

definition scanlines :: "pil_filters \<Rightarrow> byte rgba array2 \<Rightarrow> byte rgb array2 \<Rightarrow> byte rgb array2" where
  "scanlines pil scanline_img im =
     (let scan = scanline_img;
          base_rgba = map_array to_rgba im;
          base_rgba = alpha_composite pil base_rgba scan
      in map_array to_rgb base_rgba)"

definition vignette_sample :: "int \<Rightarrow> real \<Rightarrow> int" where
  "vignette_sample x m = astype_uint8 (trunc (clip (real_of_int x / 255 * m * 255) 0 255))"

definition vignette_stage :: "real rgb array2 \<Rightarrow> byte rgb array2 \<Rightarrow> int rgb array2" where
  "vignette_stage vignette pil2 = zip_array (zip_rgb vignette_sample) (asarray pil2) vignette"

text \<open>What \<^verbatim>\<open>frame_effect_factory\<close> binds for the closure it returns.\<close>

record pipeline =
  p_width :: nat
  p_height :: nat
  scanline_img :: "byte rgba array2"
  vignette :: "real rgb array2"

definition frame_effect_factory ::
  "pil_filters \<Rightarrow> nat \<Rightarrow> nat \<Rightarrow> (error + pipeline) option" where
  "frame_effect_factory pil width height =
     (case make_scanline_image pil width height (binary64 0.08) 1 2 of
        None \<Rightarrow> None
      | Some (Inl e) \<Rightarrow> Some (Inl e)
      | Some (Inr s) \<Rightarrow>
          Some (Inr \<lparr>p_width = width, p_height = height, scanline_img = s,
                     vignette = make_vignette_mask width height 0.45\<rparr>))"

definition effect :: "pil_filters \<Rightarrow> pipeline \<Rightarrow> int rgb array2 \<Rightarrow> int rgb array2 \<Rightarrow> int rgb array2" where
  "effect pil p noise frame =
     (let img = map_array (map_rgb astype_int16) frame;
          combined = chromatic (int (p_width p)) img;
          combined = contrast combined;
          combined = grain noise combined;
          im = sharpen pil combined;
          pil2 = scanlines pil (scanline_img p) im
      in vignette_stage (vignette p) pil2)"

text \<open>A frame as the decoder hands it over: uint8 samples.\<close>

definition byte_sample :: "int \<Rightarrow> bool" where
  "byte_sample v = (0 \<le> v \<and> v \<le> 255)"

definition byte_pixel :: "int rgb \<Rightarrow> bool" where
  "byte_pixel p = (byte_sample (red p) \<and> byte_sample (green p) \<and> byte_sample (blue p))"

definition byte_frame :: "int rgb array2 \<Rightarrow> bool" where
  "byte_frame a = list_all (list_all byte_pixel) a"

section \<open>Concrete inputs\<close>

definition wframe :: "int rgb array2" where
  "wframe = [[(10, 20, 30), (11, 21, 31), (12, 22, 32)]]"

definition alpha :: "'a rgba \<Rightarrow> 'a" where
  "alpha p = snd (snd (snd p))"

definition wpil :: pil_filters where
  "wpil = \<lparr>gaussian_blur = (\<lambda>im. im), unsharp_mask = (\<lambda>im. im),
           alpha_composite = (\<lambda>dst src. dst)\<rparr>"

definition wnoise :: "int rgb array2" where
  "wnoise = [[(0, 0, 0), (1, - 1, 2), (300, - 300, 0)]]"

definition wpipeline :: pipeline where
  "wpipeline = \<lparr>p_width = 3, p_height = 1,
                 scanline_img = [[(0, 0, 0, 20), (0, 0, 0, 20), (0, 0, 0, 20)]],
                 vignette = make_vignette_mask 3 1 0.45\<rparr>"

section \<open>The per-frame transform on a store\<close>

text \<open>
  Whether the transform writes to its input depends on which operations build a new
  object and which write to an existing one. The store maps the address of every array
  and image to its contents. Every NumPy operation of \<^verbatim>\<open>effect\<close> (\<^verbatim>\<open>astype\<close>,
  \<^verbatim>\<open>np.roll\<close>, \<^verbatim>\<open>np.stack\<close>, arithmetic, \<^verbatim>\<open>np.clip\<close>) and every
  \<^verbatim>\<open>Image.fromarray\<close>, \<^verbatim>\<open>filter\<close> and \<^verbatim>\<open>convert\<close> of PIL returns a
  new object; \<^verbatim>\<open>img[:, :, 1]\<close> is a view of \<^verbatim>\<open>img\<close>; the one write to an
  existing object is \<^verbatim>\<open>base_rgba.alpha_composite(scan)\<close>.
\<close>

datatype buffer =
    IntArray "int rgb array2"
  | IntChannel "int array2"
  | RgbImage "byte rgb array2"
  | RgbaImage "byte rgba array2"

record heap =
  cells :: "nat \<Rightarrow> buffer option"
  next_free :: nat

definition alloc :: "buffer \<Rightarrow> heap \<Rightarrow> nat \<times> heap" where
  "alloc b s =
     (next_free s, s\<lparr>cells := (cells s)(next_free s \<mapsto> b), next_free := Suc (next_free s)\<rparr>)"

definition store :: "nat \<Rightarrow> buffer \<Rightarrow> heap \<Rightarrow> heap" where
  "store a b s = s\<lparr>cells := (cells s)(a \<mapsto> b)\<rparr>"

definition rgba_at :: "heap \<Rightarrow> nat \<Rightarrow> byte rgba array2" where
  "rgba_at s a = (case cells s a of Some (RgbaImage im) \<Rightarrow> im | _ \<Rightarrow> [])"

text \<open>
  \<^verbatim>\<open>effect\<close> with its objects: one allocation for each object a statement of the source
  binds to a name (the unnamed temporaries of the arithmetic are new objects too and are
  left out). The result is the address of the returned array and the store after the call;
  \<open>None\<close> when \<open>frame\<close> is not the address of an integer array.
\<close>

definition effect_heap ::
  "pil_filters \<Rightarrow> pipeline \<Rightarrow> int rgb array2 \<Rightarrow> nat \<Rightarrow> heap \<Rightarrow> (nat \<times> heap) option" where
  "effect_heap pil p noise_drawn frame s0 =
     (case cells s0 frame of
        Some (IntArray fr) \<Rightarrow>
          (let img_v = map_array (map_rgb astype_int16) fr;
               (img, s) = alloc (IntArray img_v) s0;
               shift = shift_of (int (p_width p));
               (r, s) = alloc (IntChannel (roll (- shift) (map_array red img_v))) s;
               (b, s) = alloc (IntChannel (roll shift (map_array blue img_v))) s;
               combined_v = chromatic (int (p_width p)) img_v;
               (combined, s) = alloc (IntArray combined_v) s;
               combined_v = contrast combined_v;
               (combined, s) = alloc (IntArray combined_v) s;
               (noise, s) = alloc (IntArray noise_drawn) s;
               combined_v = grain noise_drawn combined_v;
               (combined, s) = alloc (IntArray combined_v) s;
               (pil_im, s) = alloc (RgbImage (fromarray combined_v)) s;
               pil_v = sharpen pil combined_v;
               (pil_im, s) = alloc (RgbImage pil_v) s;
               (scan, s) = alloc (RgbaImage (scanline_img p)) s;
               (base_rgba, s) = alloc (RgbaImage (map_array to_rgba pil_v)) s;
               s = store base_rgba
                     (RgbaImage (alpha_composite pil (rgba_at s base_rgba) (rgba_at s scan))) s;
               pil2_v = map_array to_rgb (rgba_at s base_rgba);
               (pil2, s) = alloc (RgbImage pil2_v) s;
               arr_v = vignette_stage (vignette p) pil2_v;
               (arr, s) = alloc (IntArray arr_v) s
           in Some (arr, s))
      | _ \<Rightarrow> None)"

text \<open>
  What the model takes from PIL about sizes: a filter returns an image of the size of its
  input, and compositing in place keeps the size of the destination.
\<close>

definition keeps_size :: "pil_filters \<Rightarrow> nat \<Rightarrow> nat \<Rightarrow> bool" where
  "keeps_size pil h w =
     ((\<forall>im. shape_ok h w im \<longrightarrow> shape_ok h w (gaussian_blur pil im)) \<and>
      (\<forall>im. shape_ok h w im \<longrightarrow> shape_ok h w (unsharp_mask pil im)) \<and>
      (\<forall>dst src. shape_ok h w dst \<longrightarrow> shape_ok h w src \<longrightarrow>
         shape_ok h w (alpha_composite pil dst src)))"

definition wheap :: heap where
  "wheap = \<lparr>cells = (\<lambda>a. if a = 0 then Some (IntArray wframe) else None), next_free = 1\<rparr>"

section \<open>Indexing lemmas\<close>

lemma length_roll_row [simp]: "length (roll_row s xs) = length xs"
  by (auto simp: roll_row_def Let_def)

lemma roll_row_nth:
  assumes "i < length xs"
  shows "roll_row s xs ! i = xs ! nat ((int i - s) mod int (length xs))"
proof -
  define n where "n = length xs"
  define k where "k = nat (s mod int n)"
  have n: "0 < n" "i < n" using assms by (auto simp: n_def)
  have ik: "int k = s mod int n" using n by (simp add: k_def)
  have k: "k < n" using n ik by (metis of_nat_less_iff of_nat_0_less_iff pos_mod_bound)
  have m: "(int i - s) mod int n = (int i - int k) mod int n"
    by (simp add: ik mod_diff_right_eq)
  have r: "roll_row s xs = (if k \<noteq> 0 then drop (n - k) xs @ take (n - k) xs else xs)"
    using n by (simp add: roll_row_def Let_def k_def n_def)
  show ?thesis
  proof (cases "i < k")
    case True
    then have "roll_row s xs ! i = xs ! (n - k + i)"
      using k by (simp add: r nth_append n_def)
    moreover have "(int i - int k) mod int n = int (n - k + i)"
    proof -
      have "(int i - int k) mod int n = (int i - int k + int n) mod int n" by simp
      also have "\<dots> = int i - int k + int n"
        using True k by (intro mod_pos_pos_trivial) auto
      finally show ?thesis using k by simp
    qed
    ultimately show ?thesis using m by (simp add: n_def del: of_nat_add)
  next
    case False
    then have "roll_row s xs ! i = xs ! (i - k)"
      using k n by (auto simp add: r nth_append n_def)
    moreover have "(int i - int k) mod int n = int (i - k)"
    proof -
      have "(int i - int k) mod int n = int i - int k"
        using False n by (intro mod_pos_pos_trivial) auto
      then show ?thesis using False by simp
    qed
    ultimately show ?thesis using m by (simp add: n_def del: of_nat_diff)
  qed
qed

lemma shape_ok_nth: "shape_ok h w a \<Longrightarrow> y < h \<Longrightarrow> length (a ! y) = w"
  by (auto simp: shape_ok_def list_all_length)

lemma shape_ok_map_array [simp]: "shape_ok h w (map_array f a) = shape_ok h w a"
  by (auto simp: shape_ok_def map_array_def list_all_length)

lemma shape_ok_roll [simp]: "shape_ok h w (roll s a) = shape_ok h w a"
  by (auto simp: shape_ok_def roll_def list_all_length)

lemma map_array_nth: "y < length a \<Longrightarrow> x < length (a ! y) \<Longrightarrow> map_array f a ! y ! x = f (a ! y ! x)"
  by (simp add: map_array_def)

lemma shape_ok_stack:
  "shape_ok h w r \<Longrightarrow> shape_ok h w g \<Longrightarrow> shape_ok h w b \<Longrightarrow> shape_ok h w (stack r g b)"
  by (auto simp: shape_ok_def stack_def list_all_length)

lemma stack_nth:
  "shape_ok h w r \<Longrightarrow> shape_ok h w g \<Longrightarrow> shape_ok h w b \<Longrightarrow> y < h \<Longrightarrow> x < w \<Longrightarrow>
   stack r g b ! y ! x = (r ! y ! x, g ! y ! x, b ! y ! x)"
  by (auto simp: shape_ok_def stack_def list_all_length)

lemma roll_nth:
  "shape_ok h w a \<Longrightarrow> y < h \<Longrightarrow> x < w \<Longrightarrow>
   roll s a ! y ! x = a ! y ! nat ((int x - s) mod int w)"
  by (auto simp: shape_ok_def roll_def list_all_length roll_row_nth)


lemma red_map_rgb [simp]: "red (map_rgb f p) = f (red p)"
  by (cases p) (simp add: red_def map_rgb_def)

lemma green_map_rgb [simp]: "green (map_rgb f p) = f (green p)"
  by (cases p) (simp add: green_def map_rgb_def)

lemma blue_map_rgb [simp]: "blue (map_rgb f p) = f (blue p)"
  by (cases p) (simp add: blue_def map_rgb_def)

lemma rgb_triple [simp]: "red (r, g, b) = r" "green (r, g, b) = g" "blue (r, g, b) = b"
  by (simp_all add: red_def green_def blue_def)

lemma astype_int16_id: "- 32768 \<le> v \<Longrightarrow> v \<le> 32767 \<Longrightarrow> astype_int16 v = v"
  by (simp add: astype_int16_def)

lemma astype_int16_byte [simp]: "byte_sample v \<Longrightarrow> astype_int16 v = v"
  by (simp add: astype_int16_id byte_sample_def)

lemma byte_frame_nth:
  "byte_frame a \<Longrightarrow> y < length a \<Longrightarrow> x < length (a ! y) \<Longrightarrow> byte_pixel (a ! y ! x)"
  by (simp add: byte_frame_def list_all_length)

lemma chromatic_nth:
  assumes "shape_ok h w img" "y < h" "x < w"
  shows "chromatic (int w) img ! y ! x =
           (astype_int16 (red (img ! y ! nat ((int x + shift_of (int w)) mod int w))),
            astype_int16 (green (img ! y ! x)),
            astype_int16 (blue (img ! y ! nat ((int x - shift_of (int w)) mod int w))))"
proof -
  let ?s = "shift_of (int w)"
  let ?r = "roll (- ?s) (map_array red img)"
  let ?g = "map_array green img"
  let ?b = "roll ?s (map_array blue img)"
  have len: "length img = h" "length (img ! y) = w"
    using assms by (auto simp: shape_ok_def list_all_length)
  have w: "0 < int w" using assms by simp
  have sh: "shape_ok h w ?r" "shape_ok h w ?g" "shape_ok h w ?b"
    using assms by simp_all
  have st: "shape_ok h w (stack ?r ?g ?b)" using sh by (rule shape_ok_stack)
  have lst: "length (stack ?r ?g ?b) = h" "length (stack ?r ?g ?b ! y) = w"
    using st assms by (auto simp: shape_ok_def list_all_length)
  have i1: "nat ((int x + ?s) mod int w) < w" using w by (simp add: nat_less_iff)
  have i2: "nat ((int x - ?s) mod int w) < w" using w by (simp add: nat_less_iff)
  have "chromatic (int w) img ! y ! x = map_rgb astype_int16 (stack ?r ?g ?b ! y ! x)"
    using assms lst by (simp add: chromatic_def Let_def map_array_nth)
  also have "stack ?r ?g ?b ! y ! x = (?r ! y ! x, ?g ! y ! x, ?b ! y ! x)"
    using sh assms by (simp add: stack_nth)
  also have "?r ! y ! x = red (img ! y ! nat ((int x + ?s) mod int w))"
    using assms len i1 by (simp add: roll_nth map_array_nth)
  also have "?g ! y ! x = green (img ! y ! x)"
    using assms len by (simp add: map_array_nth)
  also have "?b ! y ! x = blue (img ! y ! nat ((int x - ?s) mod int w))"
    using assms len i2 by (simp add: roll_nth map_array_nth)
  finally show ?thesis by (simp add: map_rgb_def)
qed

lemma shape_ok_chromatic: "shape_ok h w img \<Longrightarrow> shape_ok h w (chromatic width img)"
  by (simp add: chromatic_def Let_def shape_ok_stack)

text \<open>
  C2. The chromatic aberration stage uses \<open>shift = max 1 (2 * (width div 640))\<close>. On a
  frame of the bound width, the red sample of column \<open>c\<close> is found at column
  \<open>(c - shift) mod width\<close> of the output (the red channel is rotated left, wrapping
  around), the green sample stays in its column, and the blue sample is found at column
  \<open>(c + shift) mod width\<close> (the blue channel is rotated right); the shape is kept.
\<close>

theorem chromatic_shift:
  assumes "shape_ok h w frame" and "byte_frame frame" and "y < h" and "c < w"
  shows "let shift = shift_of (int w);
             out = chromatic (int w) (map_array (map_rgb astype_int16) frame)
         in shift = max 1 (2 * (int w div 640)) \<and>
            shape_ok h w out \<and>
            red (out ! y ! nat ((int c - shift) mod int w)) = red (frame ! y ! c) \<and>
            green (out ! y ! c) = green (frame ! y ! c) \<and>
            blue (out ! y ! nat ((int c + shift) mod int w)) = blue (frame ! y ! c)"
proof -
  let ?s = "shift_of (int w)"
  let ?img = "map_array (map_rgb astype_int16) frame"
  have len: "length frame = h" "length (frame ! y) = w"
    using assms by (auto simp: shape_ok_def list_all_length)
  have w: "0 < int w" using assms by simp
  have sh: "shape_ok h w ?img" using assms by simp
  have bp: "byte_pixel (frame ! y ! c)"
    using assms len by (simp add: byte_frame_nth)
  have i1: "nat ((int c - ?s) mod int w) < w" using w by (simp add: nat_less_iff)
  have i2: "nat ((int c + ?s) mod int w) < w" using w by (simp add: nat_less_iff)
  have b1: "nat (((int c - ?s) mod int w + ?s) mod int w) = c"
    using w assms(4) by (simp add: mod_add_left_eq)
  have b2: "nat (((int c + ?s) mod int w - ?s) mod int w) = c"
    using w assms(4) by (simp add: mod_diff_left_eq)
  have "red (chromatic (int w) ?img ! y ! nat ((int c - ?s) mod int w)) = red (frame ! y ! c)"
    using bp assms len
    by (simp add: chromatic_nth [OF sh assms(3) i1] b1 map_array_nth byte_pixel_def)
  moreover have "green (chromatic (int w) ?img ! y ! c) = green (frame ! y ! c)"
    using bp assms len
    by (simp add: chromatic_nth [OF sh assms(3) assms(4)] map_array_nth byte_pixel_def)
  moreover have "blue (chromatic (int w) ?img ! y ! nat ((int c + ?s) mod int w)) = blue (frame ! y ! c)"
    using bp assms len
    by (simp add: chromatic_nth [OF sh assms(3) i2] b2 map_array_nth byte_pixel_def)
  moreover have "?s = max 1 (2 * (int w div 640))"
    by (simp add: shift_of_def mult.commute)
  moreover have "shape_ok h w (chromatic (int w) ?img)"
    using sh by (rule shape_ok_chromatic)
  ultimately show ?thesis by (simp add: Let_def)
qed

theorem chromatic_shift_witness:
  "shape_ok 1 3 wframe \<and> byte_frame wframe \<and> (0::nat) < 1 \<and> (0::nat) < 3 \<and>
   chromatic 3 (map_array (map_rgb astype_int16) wframe) = [[(11, 20, 32), (12, 21, 30), (10, 22, 31)]] \<and>
   red (chromatic 3 (map_array (map_rgb astype_int16) wframe) ! 0 ! 2) = 10"
  using chromatic_shift [of 1 3 wframe 0 0]
  by (simp add: wframe_def shape_ok_def byte_frame_def byte_pixel_def byte_sample_def
      chromatic_def shift_of_def roll_def roll_row_def stack_def map_array_def map_rgb_def
      astype_int16_def Let_def)

lemma clip_bounds: "lo \<le> hi \<Longrightarrow> lo \<le> clip x lo hi \<and> clip x lo hi \<le> hi"
  by (auto simp: clip_def)

lemma trunc_nonneg: "0 \<le> x \<Longrightarrow> trunc x = \<lfloor>x\<rfloor>"
  by (simp add: trunc_def)

lemma astype_uint8_id: "byte_sample v \<Longrightarrow> astype_uint8 v = v"
  by (simp add: astype_uint8_def byte_sample_def)

lemma byte_trunc_clip: "byte_sample (trunc (clip x 0 255))"
proof -
  have b: "0 \<le> clip x 0 255" "clip x 0 255 \<le> 255"
    using clip_bounds [of 0 255 x] by simp_all
  have "\<lfloor>clip x 0 255\<rfloor> \<le> 255" using b(2) by (simp add: floor_le_iff)
  moreover have "0 \<le> \<lfloor>clip x 0 255\<rfloor>" using b(1) by simp
  ultimately show ?thesis using b(1) by (simp add: byte_sample_def trunc_nonneg)
qed

lemma contrast_sample_eq:
  assumes "byte_sample v"
  shows "contrast_sample v = \<lfloor>clip (128 + 1.06 * (real_of_int v - 128) + 4) 0 255\<rfloor>"
proof -
  have "astype_int16 (v - 128) = v - 128"
    using assms by (simp add: astype_int16_id byte_sample_def)
  then have "contrast_sample v = astype_uint8 (trunc (clip (128 + 1.06 * (real_of_int v - 128) + 4) 0 255))"
    by (simp add: contrast_sample_def)
  also have "\<dots> = trunc (clip (128 + 1.06 * (real_of_int v - 128) + 4) 0 255)"
    by (rule astype_uint8_id [OF byte_trunc_clip])
  also have "\<dots> = \<lfloor>clip (128 + 1.06 * (real_of_int v - 128) + 4) 0 255\<rfloor>"
    using clip_bounds [of 0 255 "128 + 1.06 * (real_of_int v - 128) + 4"]
    by (simp add: trunc_nonneg)
  finally show ?thesis .
qed

lemma contrast_sample_128: "contrast_sample 128 = 132"
  by (simp add: contrast_sample_def astype_int16_def clip_def trunc_def astype_uint8_def)

lemma roll_row_replicate [simp]: "roll_row s (replicate n x) = replicate n x"
  by (simp add: roll_row_def Let_def flip: replicate_add)

lemma chromatic_uniform:
  assumes "byte_pixel p"
  shows "chromatic width (map_array (map_rgb astype_int16) (image_new w h p)) = image_new w h p"
proof -
  obtain r g b where p: "p = (r, g, b)" by (cases p) auto
  have b: "byte_sample r" "byte_sample g" "byte_sample b"
    using assms by (simp_all add: p byte_pixel_def)
  show ?thesis
    using b by (simp add: chromatic_def Let_def image_new_def map_array_def roll_def stack_def
        p map_rgb_def red_def green_def blue_def)
qed

lemma contrast_uniform: "contrast (image_new w h p) = image_new w h (map_rgb contrast_sample p)"
  by (simp add: contrast_def image_new_def map_array_def)

text \<open>
  C1. In the contrast and brightness stage every sample \<open>v\<close> of every channel of an
  8-bit frame becomes \<open>clip (128 + 1.06 * (v - 128) + 4) 0 255\<close> truncated to an
  integer. On the uniform frame of colour (128, 128, 128) the channel rotation before it
  changes nothing, and every sample is 132 after the stage.
\<close>

theorem contrast_brightness:
  assumes "shape_ok h w a" and "byte_frame a" and "y < h" and "x < w"
  shows "(let f = (\<lambda>v. \<lfloor>clip (128 + 1.06 * (real_of_int v - 128) + 4) 0 255\<rfloor>);
              p = a ! y ! x
          in contrast a ! y ! x = (f (red p), f (green p), f (blue p))) \<and>
         (let u = image_new w h (128, 128, 128);
              shifted = chromatic (int w) (map_array (map_rgb astype_int16) u)
          in shifted = u \<and> contrast shifted = image_new w h (132, 132, 132))"
proof -
  have len: "length a = h" "length (a ! y) = w"
    using assms by (auto simp: shape_ok_def list_all_length)
  have bp: "byte_pixel (a ! y ! x)"
    using assms len by (simp add: byte_frame_nth)
  obtain r g b where p: "a ! y ! x = (r, g, b)" by (cases "a ! y ! x") auto
  have "contrast a ! y ! x = map_rgb contrast_sample (a ! y ! x)"
    using assms len by (simp add: contrast_def map_array_nth)
  then have 1: "contrast a ! y ! x =
      (\<lfloor>clip (128 + 1.06 * (real_of_int r - 128) + 4) 0 255\<rfloor>,
       \<lfloor>clip (128 + 1.06 * (real_of_int g - 128) + 4) 0 255\<rfloor>,
       \<lfloor>clip (128 + 1.06 * (real_of_int b - 128) + 4) 0 255\<rfloor>)"
    using bp by (simp add: p map_rgb_def byte_pixel_def contrast_sample_eq)
  have u: "byte_pixel (128, 128, 128)"
    by (simp add: byte_pixel_def byte_sample_def)
  have 2: "chromatic (int w) (map_array (map_rgb astype_int16) (image_new w h (128, 128, 128)))
      = image_new w h (128, 128, 128)"
    by (rule chromatic_uniform [OF u])
  have 3: "contrast (image_new w h (128, 128, 128)) = image_new w h (132, 132, 132)"
    by (simp add: contrast_uniform map_rgb_def contrast_sample_128)
  show ?thesis using 1 2 3 by (simp add: Let_def p)
qed

theorem contrast_brightness_witness:
  "shape_ok 1 3 wframe \<and> byte_frame wframe \<and> (0::nat) < 1 \<and> (1::nat) < 3 \<and>
   contrast wframe ! 0 ! 1 = (7, 18, 29) \<and>
   contrast (chromatic 3 (map_array (map_rgb astype_int16) (image_new 3 1 (128, 128, 128))))
     = [[(132, 132, 132), (132, 132, 132), (132, 132, 132)]]"
proof -
  have h: "shape_ok 1 3 wframe" "byte_frame wframe"
    by (simp_all add: wframe_def shape_ok_def byte_frame_def byte_pixel_def byte_sample_def)
  have lt: "(0::nat) < 1" "(1::nat) < 3" by simp_all
  note t = contrast_brightness [OF h lt, unfolded Let_def]
  have a: "contrast wframe ! 0 ! 1 = (7, 18, 29)"
    unfolding t [THEN conjunct1] by (simp add: wframe_def clip_def)
  have c: "contrast (chromatic 3 (map_array (map_rgb astype_int16) (image_new 3 1 (128, 128, 128))))
          = image_new 3 1 (132, 132, 132)"
    using t [THEN conjunct2, THEN conjunct2] by simp
  have i: "image_new 3 1 (132, 132, 132) = [[(132, 132, 132), (132, 132, 132), (132, 132, 132 :: int)]]"
    by (simp add: image_new_def numeral_3_eq_3)
  show ?thesis using h a c by (simp only: i lt simp_thms)
qed

lemma round_even_le:
  assumes "x \<le> of_int n"
  shows "round_even x \<le> n"
proof -
  have f: "\<lfloor>x\<rfloor> \<le> n" using assms by (simp add: floor_le_iff)
  have "x - of_int \<lfloor>x\<rfloor> < 1 / 2 \<or> \<lfloor>x\<rfloor> < n"
  proof (cases "\<lfloor>x\<rfloor> = n")
    case True
    then have "x - of_int \<lfloor>x\<rfloor> \<le> 0" using assms by simp
    then show ?thesis by simp
  next
    case False
    then show ?thesis using f by simp
  qed
  then show ?thesis using f by (auto simp: round_even_def Let_def)
qed

lemma round_even_ge:
  assumes "of_int n \<le> x"
  shows "n \<le> round_even x"
proof -
  have "n \<le> \<lfloor>x\<rfloor>" using assms by (simp add: le_floor_iff)
  then show ?thesis by (auto simp: round_even_def Let_def)
qed

lemma round_even_int [simp]: "round_even (of_int n) = n"
  by (simp add: round_even_def)

lemma floor_log2:
  assumes "2 ^ k \<le> \<bar>x\<bar>" "\<bar>x\<bar> < 2 ^ Suc k"
  shows "\<lfloor>log 2 \<bar>x\<bar>\<rfloor> = int k"
proof -
  have pos: "0 < \<bar>x\<bar>" using assms(1) by (smt (verit) zero_less_power)
  have "real k \<le> log 2 \<bar>x\<bar>"
    using assms(1) pos by (simp add: le_log_iff powr_realpow)
  moreover have "log 2 \<bar>x\<bar> < real k + 1"
    using assms(2) pos by (simp add: log_less_iff powr_realpow powr_add)
  ultimately show ?thesis by (intro floor_unique) simp_all
qed

lemma floor_log2_neg:
  assumes "1 / 2 ^ k \<le> \<bar>x\<bar>" "\<bar>x\<bar> < 2 / 2 ^ k"
  shows "\<lfloor>log 2 \<bar>x\<bar>\<rfloor> = - int k"
proof -
  have pos: "0 < \<bar>x\<bar>" using assms(1) by (smt (verit) zero_less_power divide_pos_pos)
  have p: "2 powr (- real k) = 1 / 2 ^ k"
    by (simp add: powr_minus powr_realpow divide_inverse)
  have "2 powr (- real k + 1) = 2 powr (- real k) * 2 powr 1"
    by (simp only: powr_add)
  then have p2: "2 powr (- real k + 1) = 2 / 2 ^ k"
    by (simp add: p)
  have "- real k \<le> log 2 \<bar>x\<bar>"
    using assms(1) pos by (simp add: le_log_iff p)
  moreover have "log 2 \<bar>x\<bar> < - real k + 1"
    using assms(2) pos by (simp only: log_less_iff p2)
  ultimately show ?thesis by (intro floor_unique) simp_all
qed

lemma binary64_eval:
  assumes "2 ^ k \<le> \<bar>x\<bar>" "\<bar>x\<bar> < 2 ^ Suc k"
  shows "binary64 x = of_int (round_even (x * 2 ^ 52 / 2 ^ k)) * 2 ^ k / 2 ^ 52"
proof -
  have x: "x \<noteq> 0" using assms(1) by (smt (verit) zero_less_power abs_zero)
  have q: "2 powr (of_int \<lfloor>log 2 \<bar>x\<bar>\<rfloor> - 52) = (2::real) ^ k / 2 ^ 52"
    unfolding floor_log2 [OF assms] by (simp add: powr_diff powr_realpow)
  show ?thesis using x unfolding binary64_def Let_def q by (simp add: field_simps)
qed

lemma binary64_eval_neg:
  assumes "1 / 2 ^ k \<le> \<bar>x\<bar>" "\<bar>x\<bar> < 2 / 2 ^ k"
  shows "binary64 x = of_int (round_even (x * 2 ^ (52 + k))) / 2 ^ (52 + k)"
proof -
  have x: "x \<noteq> 0" using assms(1) by (smt (verit) zero_less_power divide_pos_pos abs_zero zero_less_one)
  have "2 powr (of_int \<lfloor>log 2 \<bar>x\<bar>\<rfloor> - 52) = 2 powr (- real (52 + k))"
    unfolding floor_log2_neg [OF assms] by (simp add: algebra_simps)
  also have "\<dots> = 1 / 2 ^ (52 + k)"
    by (simp only: powr_minus powr_realpow zero_less_numeral divide_inverse mult_1)
  finally have q: "2 powr (of_int \<lfloor>log 2 \<bar>x\<bar>\<rfloor> - 52) = 1 / (2::real) ^ (52 + k)" .
  show ?thesis using x unfolding binary64_def Let_def q by simp
qed

lemma binary64_nonneg: "0 \<le> x \<Longrightarrow> 0 \<le> binary64 x"
proof -
  assume x: "0 \<le> x"
  have "0 \<le> round_even (x / q)" if "0 < q" for q :: real
    using round_even_ge [of 0 "x / q"] x that by simp
  then show ?thesis by (simp add: binary64_def Let_def)
qed

lemma binary64_int_bounds:
  assumes "0 < x" "x < 2 ^ 53"
  shows "x \<le> of_int n \<Longrightarrow> binary64 x \<le> of_int n"
    and "of_int n \<le> x \<Longrightarrow> of_int n \<le> binary64 x"
proof -
  define e where "e = \<lfloor>log 2 \<bar>x\<bar>\<rfloor>"
  define m where "m = nat (52 - e)"
  have "log 2 x < 53" using assms by (simp add: log_less_iff powr_realpow)
  then have e: "e \<le> 52" unfolding e_def using assms(1) by (simp add: floor_le_iff)
  have "2 powr (of_int e - 52) = 2 powr (- real m)"
    using e by (simp add: m_def)
  also have "\<dots> = 1 / 2 ^ m"
    by (simp only: powr_minus powr_realpow zero_less_numeral divide_inverse mult_1)
  finally have q: "2 powr (of_int e - 52) = 1 / (2::real) ^ m" .
  have b: "binary64 x = of_int (round_even (x * 2 ^ m)) / 2 ^ m"
    using assms(1) unfolding binary64_def Let_def e_def [symmetric] q by simp
  show "binary64 x \<le> of_int n" if "x \<le> of_int n"
  proof -
    have "x * 2 ^ m \<le> of_int (n * 2 ^ m)" using that by simp
    then have "round_even (x * 2 ^ m) \<le> n * 2 ^ m" by (rule round_even_le)
    then have "real_of_int (round_even (x * 2 ^ m)) \<le> of_int n * 2 ^ m"
      by (simp flip: of_int_le_iff [where 'a = real])
    then show ?thesis unfolding b by (simp add: divide_le_eq)
  qed
  show "of_int n \<le> binary64 x" if "of_int n \<le> x"
  proof -
    have "of_int (n * 2 ^ m) \<le> x * 2 ^ m" using that by simp
    then have "n * 2 ^ m \<le> round_even (x * 2 ^ m)" by (rule round_even_ge)
    then have "of_int n * 2 ^ m \<le> real_of_int (round_even (x * 2 ^ m))"
      by (simp flip: of_int_le_iff [where 'a = real])
    then show ?thesis unfolding b by (simp add: le_divide_eq)
  qed
qed


lemma binary64_numeral:
  "1 \<le> \<bar>x\<bar> \<Longrightarrow> \<bar>x\<bar> < 2 \<Longrightarrow>
     binary64 x = real_of_int (round_even (x * 4503599627370496)) / 4503599627370496"
  "2 \<le> \<bar>x\<bar> \<Longrightarrow> \<bar>x\<bar> < 4 \<Longrightarrow>
     binary64 x = real_of_int (round_even (x * 2251799813685248)) / 2251799813685248"
  "4 \<le> \<bar>x\<bar> \<Longrightarrow> \<bar>x\<bar> < 8 \<Longrightarrow>
     binary64 x = real_of_int (round_even (x * 1125899906842624)) / 1125899906842624"
  "8 \<le> \<bar>x\<bar> \<Longrightarrow> \<bar>x\<bar> < 16 \<Longrightarrow>
     binary64 x = real_of_int (round_even (x * 562949953421312)) / 562949953421312"
  "16 \<le> \<bar>x\<bar> \<Longrightarrow> \<bar>x\<bar> < 32 \<Longrightarrow>
     binary64 x = real_of_int (round_even (x * 281474976710656)) / 281474976710656"
  "32 \<le> \<bar>x\<bar> \<Longrightarrow> \<bar>x\<bar> < 64 \<Longrightarrow>
     binary64 x = real_of_int (round_even (x * 140737488355328)) / 140737488355328"
  "64 \<le> \<bar>x\<bar> \<Longrightarrow> \<bar>x\<bar> < 128 \<Longrightarrow>
     binary64 x = real_of_int (round_even (x * 70368744177664)) / 70368744177664"
  "128 \<le> \<bar>x\<bar> \<Longrightarrow> \<bar>x\<bar> < 256 \<Longrightarrow>
     binary64 x = real_of_int (round_even (x * 35184372088832)) / 35184372088832"
  "256 \<le> \<bar>x\<bar> \<Longrightarrow> \<bar>x\<bar> < 512 \<Longrightarrow>
     binary64 x = real_of_int (round_even (x * 17592186044416)) / 17592186044416"
  using binary64_eval [of 0 x] binary64_eval [of 1 x] binary64_eval [of 2 x] binary64_eval [of 3 x] binary64_eval [of 4 x] binary64_eval [of 5 x] binary64_eval [of 6 x] binary64_eval [of 7 x] binary64_eval [of 8 x]
  by (simp_all add: mult.commute)

lemma binary64_fraction:
  "1 / 2 \<le> \<bar>x\<bar> \<Longrightarrow> \<bar>x\<bar> < 1 \<Longrightarrow>
     binary64 x = real_of_int (round_even (x * 9007199254740992)) / 9007199254740992"
  "1 / 4 \<le> \<bar>x\<bar> \<Longrightarrow> \<bar>x\<bar> < 1 / 2 \<Longrightarrow>
     binary64 x = real_of_int (round_even (x * 18014398509481984)) / 18014398509481984"
  "1 / 8 \<le> \<bar>x\<bar> \<Longrightarrow> \<bar>x\<bar> < 1 / 4 \<Longrightarrow>
     binary64 x = real_of_int (round_even (x * 36028797018963968)) / 36028797018963968"
  "1 / 16 \<le> \<bar>x\<bar> \<Longrightarrow> \<bar>x\<bar> < 1 / 8 \<Longrightarrow>
     binary64 x = real_of_int (round_even (x * 72057594037927936)) / 72057594037927936"
  "1 / 32 \<le> \<bar>x\<bar> \<Longrightarrow> \<bar>x\<bar> < 1 / 16 \<Longrightarrow>
     binary64 x = real_of_int (round_even (x * 144115188075855872)) / 144115188075855872"
  "1 / 64 \<le> \<bar>x\<bar> \<Longrightarrow> \<bar>x\<bar> < 1 / 32 \<Longrightarrow>
     binary64 x = real_of_int (round_even (x * 288230376151711744)) / 288230376151711744"
  "1 / 128 \<le> \<bar>x\<bar> \<Longrightarrow> \<bar>x\<bar> < 1 / 64 \<Longrightarrow>
     binary64 x = real_of_int (round_even (x * 576460752303423488)) / 576460752303423488"
  "1 / 256 \<le> \<bar>x\<bar> \<Longrightarrow> \<bar>x\<bar> < 1 / 128 \<Longrightarrow>
     binary64 x = real_of_int (round_even (x * 1152921504606846976)) / 1152921504606846976"
  using binary64_eval_neg [of 1 x] binary64_eval_neg [of 2 x] binary64_eval_neg [of 3 x] binary64_eval_neg [of 4 x] binary64_eval_neg [of 5 x] binary64_eval_neg [of 6 x] binary64_eval_neg [of 7 x] binary64_eval_neg [of 8 x]
  by (simp_all add: mult.commute)


lemma fill_box_nth:
  assumes "i < length img" "j < length (img ! i)"
  shows "fill_box img x0 y0 x1 y1 c ! i ! j =
           (if x0 \<le> int j \<and> int j \<le> x1 \<and> y0 \<le> int i \<and> int i \<le> y1 then c else img ! i ! j)"
  using assms by (simp add: fill_box_def nth_enumerate_eq)

lemma shape_ok_fill_box [simp]:
  "shape_ok h w (fill_box img x0 y0 x1 y1 c) = shape_ok h w img"
  by (auto simp: shape_ok_def fill_box_def list_all_length nth_enumerate_eq)

lemma shape_ok_image_new [simp]: "shape_ok h w (image_new w h c)"
  by (simp add: shape_ok_def image_new_def list_all_length)

lemma ink_0 [simp]: "ink 0 = 0"
  by (simp add: ink_def clip_def)

lemma getink_alpha: "c_int a \<Longrightarrow> getink (0, 0, 0, a) = Inr (0, 0, 0, ink a)"
  by (simp add: getink_def c_int_def)

lemma rectangle_fills:
  "getink fill = Inr c \<Longrightarrow> x0 \<le> x1 \<Longrightarrow> y0 \<le> y1 \<Longrightarrow>
   rectangle img x0 y0 x1 y1 fill = Inr (fill_box img x0 y0 x1 y1 c)"
  by (simp add: rectangle_def)

lemma scan_loop_step:
  "y < h \<Longrightarrow>
   scan_loop w h line_height gap fill img y =
   (case rectangle img 0 y w (min h (y + line_height - 1)) fill of
      Inl e \<Rightarrow> Some (Inl e)
    | Inr img' \<Rightarrow> scan_loop w h line_height gap fill img' (y + (line_height + gap)))"
  by (subst scan_loop.simps) simp

lemma scan_loop_stop:
  "\<not> y < h \<Longrightarrow> scan_loop w h line_height gap fill img y = Some (Inr img)"
  by (subst scan_loop.simps) simp

lemma image_new_1_4:
  "image_new 1 4 (0, 0, 0, 0::byte) = [[(0, 0, 0, 0)], [(0, 0, 0, 0)], [(0, 0, 0, 0)], [(0, 0, 0, 0)]]"
  by (simp add: image_new_def eval_nat_numeral)

lemma rectangle_alpha_20:
  "x0 \<le> x1 \<Longrightarrow> y0 \<le> y1 \<Longrightarrow>
   rectangle img x0 y0 x1 y1 (0, 0, 0, 20) = Inr (fill_box img x0 y0 x1 y1 (0, 0, 0, 20))"
  by (simp add: rectangle_def getink_def c_int_def ink_def clip_def)

lemma scan_loop_1_4:
  "scan_loop 1 4 1 2 (0, 0, 0, 20) [[(0, 0, 0, 0)], [(0, 0, 0, 0)], [(0, 0, 0, 0)], [(0, 0, 0, 0)]] 0
     = Some (Inr [[(0, 0, 0, 20)], [(0, 0, 0, 0)], [(0, 0, 0, 0)], [(0, 0, 0, 20)]])"
  by (simp add: scan_loop_step scan_loop_stop rectangle_alpha_20 fill_box_def)

lemma alpha_line_008: "alpha_line 0.08 = 20"
  by (simp add: alpha_line_def binary64_numeral round_even_def trunc_def)

lemma scanline_bands_1_4:
  "scanline_bands 1 4 0.08 1 2
     = Some (Inr [[(0, 0, 0, 20)], [(0, 0, 0, 0)], [(0, 0, 0, 0)], [(0, 0, 0, 20)]])"
  unfolding scanline_bands_def Let_def image_new_1_4 alpha_line_008
  by (simp add: scan_loop_1_4)

lemma scan_loop_returns:
  assumes "0 < line_height + gap"
  shows "\<exists>r. scan_loop w h line_height gap fill img y = Some r"
proof (induction "nat (h - y)" arbitrary: img y rule: less_induct)
  case less
  show ?case
  proof (cases "y < h")
    case True
    show ?thesis
    proof (cases "rectangle img 0 y w (min h (y + line_height - 1)) fill")
      case (Inl e)
      then show ?thesis using True by (simp add: scan_loop_step)
    next
      case (Inr img')
      have "nat (h - (y + (line_height + gap))) < nat (h - y)"
        using True assms by linarith
      from less [OF this] obtain r where
        "scan_loop w h line_height gap fill img' (y + (line_height + gap)) = Some r"
        by blast
      then show ?thesis using True Inr by (simp add: scan_loop_step)
    qed
  next
    case False
    then show ?thesis by (simp add: scan_loop_stop)
  qed
qed

lemma band_step:
  fixes i y P lh :: int
  assumes "0 < P" "y = k * P" "0 < lh" "lh \<le> P" "i < h"
  shows "(y \<le> i \<and> i mod P < lh) \<longleftrightarrow>
         (y + P \<le> i \<and> i mod P < lh) \<or> (y \<le> i \<and> i \<le> min h (y + lh - 1))"
proof (cases "y \<le> i \<and> i < y + P")
  case True
  have "i mod P = (i - y) mod P"
    using assms(2) by (metis mod_diff_right_eq mod_mult_self2_is_0 diff_zero)
  also have "\<dots> = i - y" using True by (intro mod_pos_pos_trivial) auto
  finally show ?thesis using True assms by auto
next
  case False
  then show ?thesis using assms by auto
qed

lemma scan_loop_result:
  assumes "1 \<le> line_height" "0 \<le> gap" "getink fill = Inr c"
    "shape_ok h w img" "y = k * (line_height + gap)"
  shows "\<exists>r. scan_loop (int w) (int h) line_height gap fill img y = Some (Inr r) \<and>
           shape_ok h w r \<and>
           (\<forall>i<h. \<forall>j<w. r ! i ! j =
              (if y \<le> int i \<and> int i mod (line_height + gap) < line_height then c
               else img ! i ! j))"
  using assms(4,5)
proof (induction "nat (int h - y)" arbitrary: img y k rule: less_induct)
  case less
  let ?P = "line_height + gap"
  show ?case
  proof (cases "y < int h")
    case True
    let ?img = "fill_box img 0 y (int w) (min (int h) (y + line_height - 1)) c"
    have rect: "rectangle img 0 y (int w) (min (int h) (y + line_height - 1)) fill = Inr ?img"
      using assms(1,3) True by (intro rectangle_fills) simp_all
    have m: "nat (int h - (y + ?P)) < nat (int h - y)"
      using True assms by linarith
    have y': "y + ?P = (k + 1) * ?P" using less.prems by (simp add: algebra_simps)
    have sh: "shape_ok h w ?img" using less.prems by simp
    from less.hyps [OF m sh y'] obtain r where
      r: "scan_loop (int w) (int h) line_height gap fill ?img (y + ?P) = Some (Inr r)"
         "shape_ok h w r"
         "\<forall>i<h. \<forall>j<w. r ! i ! j =
              (if y + ?P \<le> int i \<and> int i mod ?P < line_height then c else ?img ! i ! j)"
      by blast
    have s: "scan_loop (int w) (int h) line_height gap fill img y = Some (Inr r)"
      using True r(1) by (simp add: scan_loop_step rect)
    have "r ! i ! j = (if y \<le> int i \<and> int i mod ?P < line_height then c else img ! i ! j)"
      if "i < h" "j < w" for i j
    proof -
      have len: "i < length img" "j < length (img ! i)"
        using that less.prems(1) by (auto simp: shape_ok_def list_all_length)
      have b: "(y \<le> int i \<and> int i mod ?P < line_height) \<longleftrightarrow>
               (y + ?P \<le> int i \<and> int i mod ?P < line_height) \<or>
               (y \<le> int i \<and> int i \<le> min (int h) (y + line_height - 1))"
        using assms(1,2) less.prems(2) that(1) by (intro band_step [of _ _ k]) auto
      show ?thesis
        using r(3) that b by (auto simp: fill_box_nth [OF len])
    qed
    then show ?thesis using s r(2) by blast
  next
    case False
    have "scan_loop (int w) (int h) line_height gap fill img y = Some (Inr img)"
      using False by (simp add: scan_loop_stop)
    then show ?thesis using False less.prems by auto
  qed
qed

lemma alpha_line_range:
  assumes "0 \<le> intensity" "intensity \<le> 1"
  shows "alpha_line intensity = \<lfloor>binary64 (255 * intensity)\<rfloor>"
    and "0 \<le> alpha_line intensity" and "alpha_line intensity \<le> 255"
    and "1 / 255 \<le> intensity \<Longrightarrow> 1 \<le> alpha_line intensity"
proof -
  let ?x = "255 * intensity"
  have x: "0 \<le> ?x" "?x \<le> 255" using assms by simp_all
  have lo: "0 \<le> binary64 ?x" using x(1) by (rule binary64_nonneg)
  have hi: "binary64 ?x \<le> 255"
  proof (cases "?x = 0")
    case True
    then show ?thesis by (simp add: binary64_def)
  next
    case False
    then have "0 < ?x" "?x < 2 ^ 53" using x by simp_all
    from binary64_int_bounds(1) [OF this, of 255] x(2) show ?thesis by simp
  qed
  show t: "alpha_line intensity = \<lfloor>binary64 ?x\<rfloor>"
    using lo by (simp add: alpha_line_def trunc_def)
  show "0 \<le> alpha_line intensity" using lo by (simp add: t)
  show "alpha_line intensity \<le> 255" using hi by (simp add: t floor_le_iff)
  show "1 \<le> alpha_line intensity" if "1 / 255 \<le> intensity"
  proof -
    have "0 < ?x" "?x < 2 ^ 53" "of_int 1 \<le> ?x" using that x(2) by simp_all
    from binary64_int_bounds(2) [OF this] have "1 \<le> binary64 ?x" by simp
    then show ?thesis by (simp add: t le_floor_iff)
  qed
qed

lemma uint_ink: "0 \<le> a \<Longrightarrow> a \<le> 255 \<Longrightarrow> uint (ink a) = a"
  by (simp add: ink_def clip_def uint_word_of_int take_bit_eq_mod)

lemma c_int_byte: "0 \<le> a \<Longrightarrow> a \<le> 255 \<Longrightarrow> c_int a"
  by (simp add: c_int_def)

lemma scanline_bands_result:
  assumes "1 \<le> line_height" "0 \<le> gap" "c_int (alpha_line intensity)"
  shows "\<exists>img. scanline_bands w h intensity line_height gap = Some (Inr img) \<and>
           shape_ok h w img \<and>
           (\<forall>r<h. \<forall>x<w. img ! r ! x =
              (if int r mod (line_height + gap) < line_height
               then (0, 0, 0, ink (alpha_line intensity)) else (0, 0, 0, 0)))"
proof -
  let ?z = "(0, 0, 0, 0) :: byte rgba"
  have sh: "shape_ok h w (image_new w h ?z)" by simp
  have y0: "(0::int) = 0 * (line_height + gap)" by simp
  from scan_loop_result [OF assms(1,2) getink_alpha [OF assms(3)] sh y0] obtain img where
    img: "scan_loop (int w) (int h) line_height gap (0, 0, 0, alpha_line intensity)
            (image_new w h ?z) 0 = Some (Inr img)"
      "shape_ok h w img"
      "\<forall>i<h. \<forall>j<w. img ! i ! j =
         (if 0 \<le> int i \<and> int i mod (line_height + gap) < line_height
          then (0, 0, 0, ink (alpha_line intensity)) else image_new w h ?z ! i ! j)"
    by blast
  have "scanline_bands w h intensity line_height gap = Some (Inr img)"
    using img(1) by (simp add: scanline_bands_def Let_def)
  moreover have "\<forall>r<h. \<forall>x<w. img ! r ! x =
              (if int r mod (line_height + gap) < line_height
               then (0, 0, 0, ink (alpha_line intensity)) else ?z)"
    using img(3) by (simp add: image_new_def)
  ultimately show ?thesis using img(2) by blast
qed

text \<open>
  C10. For \<open>line_height \<ge> 1\<close> and \<open>gap \<ge> 0\<close> the band-filling loop returns from every
  row offset and every image, whatever the height: each iteration moves the offset up by
  \<open>line_height + gap \<ge> 1\<close>. So both generators of the scanline overlay return; and they
  return an image, not an error, whenever the alpha fits a C int.
\<close>

theorem scanline_loop_terminates:
  assumes "1 \<le> line_height" and "0 \<le> gap"
  shows "(\<exists>r. scan_loop w h line_height gap fill img y = Some r) \<and>
         y + 1 \<le> y + (line_height + gap) \<and>
         (\<exists>r. scanline_bands w' h' intensity line_height gap = Some r) \<and>
         (\<exists>r. make_scanline_image pil w' h' intensity line_height gap = Some r) \<and>
         (c_int (alpha_line intensity) \<longrightarrow>
            (\<exists>r. scanline_bands w' h' intensity line_height gap = Some (Inr r)) \<and>
            (\<exists>r. make_scanline_image pil w' h' intensity line_height gap = Some (Inr r)))"
proof -
  have p: "0 < line_height + gap" using assms by simp
  have 1: "\<exists>r. scan_loop w h line_height gap fill img y = Some r"
    using p by (rule scan_loop_returns)
  have 2: "\<exists>r. scanline_bands w' h' intensity line_height gap = Some r"
    unfolding scanline_bands_def Let_def using p by (rule scan_loop_returns)
  then have 3: "\<exists>r. make_scanline_image pil w' h' intensity line_height gap = Some r"
    by (auto simp: make_scanline_image_def split: sum.splits)
  have 4: "(\<exists>r. scanline_bands w' h' intensity line_height gap = Some (Inr r)) \<and>
           (\<exists>r. make_scanline_image pil w' h' intensity line_height gap = Some (Inr r))"
    if "c_int (alpha_line intensity)"
    using scanline_bands_result [OF assms that, of w' h']
    by (auto simp: make_scanline_image_def)
  show ?thesis using 1 2 3 4 p by simp
qed

theorem scanline_loop_terminates_witness:
  "(1::int) \<le> 1 \<and> (0::int) \<le> 2 \<and> c_int (alpha_line 0.08) \<and>
   scan_loop 1 4 1 2 (0, 0, 0, 20) (image_new 1 4 (0, 0, 0, 0)) 0
     = Some (Inr [[(0, 0, 0, 20)], [(0, 0, 0, 0)], [(0, 0, 0, 0)], [(0, 0, 0, 20)]])"
  using scanline_loop_terminates [of 1 2 1 4 "(0, 0, 0, 20)" "image_new 1 4 (0, 0, 0, 0)" 0 _ _ "0.08"]
  unfolding image_new_1_4 alpha_line_008 by (simp add: scan_loop_1_4 c_int_def)

text \<open>
  C5, as the code has it. The alpha of the bands is the binary64 product
  \<open>255 * intensity\<close> truncated, not rounded. For an intensity in [0, 1],
  \<open>line_height \<ge> 1\<close> and \<open>gap \<ge> 0\<close>, the image before the blur has colour (0, 0, 0)
  everywhere, that alpha on the rows \<open>r\<close> with \<open>r mod (line_height + gap) < line_height\<close>
  and alpha 0 on the others. With \<open>line_height = 1\<close>, \<open>gap = 2\<close> and an intensity of at
  least 1/255, the rows with a positive alpha are exactly the rows 0, 3, 6, ...
\<close>

theorem scanline_bands_rows:
  assumes "0 \<le> intensity" and "intensity \<le> 1" and "1 \<le> line_height" and "0 \<le> gap"
  shows "\<exists>img a. scanline_bands w h intensity line_height gap = Some (Inr img) \<and>
           shape_ok h w img \<and>
           uint a = \<lfloor>binary64 (255 * intensity)\<rfloor> \<and>
           (\<forall>r<h. \<forall>x<w. img ! r ! x =
              (if int r mod (line_height + gap) < line_height then (0, 0, 0, a) else (0, 0, 0, 0))) \<and>
           (line_height = 1 \<and> gap = 2 \<and> 1 / 255 \<le> intensity \<longrightarrow>
              (\<forall>r<h. \<forall>x<w. (0 < alpha (img ! r ! x)) = (r mod 3 = 0)))"
proof -
  let ?a = "ink (alpha_line intensity)"
  note al = alpha_line_range [OF assms(1,2)]
  have ci: "c_int (alpha_line intensity)" using al(2,3) by (rule c_int_byte)
  from scanline_bands_result [OF assms(3,4) ci, of w h] obtain img where
    img: "scanline_bands w h intensity line_height gap = Some (Inr img)"
      "shape_ok h w img"
      "\<forall>r<h. \<forall>x<w. img ! r ! x =
         (if int r mod (line_height + gap) < line_height then (0, 0, 0, ?a) else (0, 0, 0, 0))"
    by blast
  have 2: "uint ?a = \<lfloor>binary64 (255 * intensity)\<rfloor>"
    using uint_ink [OF al(2,3)] al(1) by simp
  have 4: "\<forall>r<h. \<forall>x<w. (0 < alpha (img ! r ! x)) = (r mod 3 = 0)"
    if "line_height = 1" "gap = 2" "1 / 255 \<le> intensity"
  proof -
    have "1 \<le> alpha_line intensity" using that(3) by (rule al(4))
    then have "0 < uint ?a" using uint_ink [OF al(2,3)] by simp
    then have pos: "0 < ?a" by (simp add: word_less_def)
    have m: "(int r mod 3 < 1) = (r mod 3 = 0)" for r :: nat
    proof -
      have "int r mod 3 = int (r mod 3)" by (simp add: zmod_int)
      then show ?thesis by simp
    qed
    show ?thesis using img(3) pos by (simp add: that alpha_def m)
  qed
  show ?thesis using img 2 4 by blast
qed

theorem scanline_bands_rows_witness:
  "(0::real) \<le> 0.08 \<and> (0.08::real) \<le> 1 \<and> (1::int) \<le> 1 \<and> (0::int) \<le> 2 \<and>
   scanline_bands 1 4 0.08 1 2
     = Some (Inr [[(0, 0, 0, 20)], [(0, 0, 0, 0)], [(0, 0, 0, 0)], [(0, 0, 0, 20)]])"
proof -
  have h: "(0::real) \<le> 0.08" "(0.08::real) \<le> 1" "(1::int) \<le> 1" "(0::int) \<le> 2"
    by simp_all
  from scanline_bands_rows [OF h, of 1 4]
  have "\<exists>img. scanline_bands 1 4 0.08 1 2 = Some (Inr img) \<and> shape_ok 4 1 img"
    by blast
  then show ?thesis using h by (simp only: scanline_bands_1_4 simp_thms)
qed

text \<open>
  C5 as stated fails: with intensity 3/8 the alpha of row 0 is 95, while
  \<open>255 * 3/8 = 95.625\<close> rounds to 96; and with the positive intensity 1/256 the alpha
  of row 0 is 0. Both intensities and both products are binary64 numbers.
\<close>

lemma alpha_line_examples: "alpha_line (3 / 8) = 95" "alpha_line (1 / 256) = 0"
  by (simp_all add: alpha_line_def binary64_numeral binary64_fraction round_even_def trunc_def)

text \<open>
  The rounding of the product shows at the binary64 numbers nearest to 1/255 and to 0.6:
  the exact products lie just below 1 and 153, the binary64 products are 1 and 153.
\<close>

lemma alpha_line_rounded_product:
  "alpha_line (282578800148737 / 2 ^ 56) = 1"
  "\<lfloor>255 * (282578800148737 / 2 ^ 56 :: real)\<rfloor> = 0"
  "alpha_line (5404319552844595 / 2 ^ 53) = 153"
  "\<lfloor>255 * (5404319552844595 / 2 ^ 53 :: real)\<rfloor> = 152"
  by (simp_all add: alpha_line_def binary64_numeral binary64_fraction round_even_def trunc_def)

text \<open>With \<open>line_height = 0\<close> the first box has \<open>y1 < y0\<close>, which PIL refuses.\<close>

lemma scanline_bands_line_height_0:
  assumes "0 < h" "c_int (alpha_line intensity)"
  shows "scanline_bands w h intensity 0 gap = Some (Inl ValueError)"
  using assms
  by (simp add: scanline_bands_def scan_loop_step rectangle_def getink_alpha)

lemma rectangle_alpha_examples:
  "x0 \<le> x1 \<Longrightarrow> y0 \<le> y1 \<Longrightarrow>
   rectangle img x0 y0 x1 y1 (0, 0, 0, 95) = Inr (fill_box img x0 y0 x1 y1 (0, 0, 0, 95))"
  "x0 \<le> x1 \<Longrightarrow> y0 \<le> y1 \<Longrightarrow>
   rectangle img x0 y0 x1 y1 (0, 0, 0, 0) = Inr (fill_box img x0 y0 x1 y1 (0, 0, 0, 0))"
  by (simp_all add: rectangle_def getink_def c_int_def ink_def clip_def)

theorem scanline_bands_round_counterexample:
  "scanline_bands 1 1 (3 / 8) 1 2 = Some (Inr [[(0, 0, 0, 95)]]) \<and>
   round (255 * (3 / 8) :: real) = 96 \<and>
   scanline_bands 1 1 (1 / 256) 1 2 = Some (Inr [[(0, 0, 0, 0)]]) \<and>
   (0::real) < 1 / 256"
  unfolding scanline_bands_def Let_def alpha_line_examples
  by (simp add: scan_loop_step scan_loop_stop rectangle_alpha_examples fill_box_def image_new_def
      round_def)

lemma max_dist_pos:
  assumes "0 < w \<or> 0 < h"
  shows "0 < sqrt (real w / 2 * (real w / 2) + real h / 2 * (real h / 2))"
proof -
  have "0 < real w / 2 * (real w / 2) + real h / 2 * (real h / 2)"
    using assms by (auto intro: add_pos_nonneg add_nonneg_pos)
  then show ?thesis by simp
qed

lemma clip_mono: "x \<le> y \<Longrightarrow> clip x lo hi \<le> clip y lo hi"
  by (auto simp: clip_def min_def max_def)

lemma make_vignette_mask_nth:
  "y < h \<Longrightarrow> x < w \<Longrightarrow>
   make_vignette_mask w h strength ! y ! x =
     (vign w h strength x y, vign w h strength x y, vign w h strength x y)"
  by (simp add: make_vignette_mask_def Let_def)

lemma shape_ok_make_vignette_mask [simp]: "shape_ok h w (make_vignette_mask w h strength)"
  by (simp add: shape_ok_def make_vignette_mask_def list_all_length)

lemma vign_mono:
  assumes "0 < w" "0 \<le> strength"
    and "sqrt ((real x1 - real w / 2)\<^sup>2 + (real y1 - real h / 2)\<^sup>2)
          \<le> sqrt ((real x2 - real w / 2)\<^sup>2 + (real y2 - real h / 2)\<^sup>2)"
  shows "vign w h strength x2 y2 \<le> vign w h strength x1 y1"
proof -
  let ?m = "sqrt (real w / 2 * (real w / 2) + real h / 2 * (real h / 2))"
  let ?d1 = "sqrt ((real x1 - real w / 2)\<^sup>2 + (real y1 - real h / 2)\<^sup>2)"
  let ?d2 = "sqrt ((real x2 - real w / 2)\<^sup>2 + (real y2 - real h / 2)\<^sup>2)"
  have m: "0 < ?m" using assms(1) by (intro max_dist_pos) simp
  have "?d1 / ?m \<le> ?d2 / ?m" using assms(3) m by (simp add: divide_right_mono)
  then have "strength * (?d1 / ?m) \<le> strength * (?d2 / ?m)"
    using assms(2) by (rule mult_left_mono)
  then have "1 - strength * (?d2 / ?m) \<le> 1 - strength * (?d1 / ?m)" by simp
  then show ?thesis unfolding vign_def Let_def by (rule clip_mono)
qed

text \<open>
  C6. In the mask generated for a positive width and height and a strength in [0, 1],
  a pixel nearer to the centre (width/2, height/2) than another has, in every channel,
  a value at least as large.
\<close>

theorem vignette_monotone:
  assumes "0 < w" and "0 < h" and "0 \<le> strength" and "strength \<le> 1"
    and "x1 < w" and "y1 < h" and "x2 < w" and "y2 < h"
    and "sqrt ((real x1 - real w / 2)\<^sup>2 + (real y1 - real h / 2)\<^sup>2)
          < sqrt ((real x2 - real w / 2)\<^sup>2 + (real y2 - real h / 2)\<^sup>2)"
  shows "let mask = make_vignette_mask w h strength
         in red (mask ! y2 ! x2) \<le> red (mask ! y1 ! x1) \<and>
            green (mask ! y2 ! x2) \<le> green (mask ! y1 ! x1) \<and>
            blue (mask ! y2 ! x2) \<le> blue (mask ! y1 ! x1)"
proof -
  have "vign w h strength x2 y2 \<le> vign w h strength x1 y1"
    using assms(1,3) less_imp_le [OF assms(9)] by (rule vign_mono)
  then show ?thesis
    using assms(5-8) by (simp add: make_vignette_mask_nth Let_def)
qed

lemma vign_2_2_centre: "vign 2 2 (1 / 2) 1 1 = 1"
  by (simp add: vign_def Let_def clip_def)

lemma vign_2_2_corner: "vign 2 2 (1 / 2) 0 0 = 1 / 2"
  by (simp add: vign_def Let_def clip_def)

theorem vignette_monotone_witness:
  "(0::nat) < 2 \<and> (0::real) \<le> 1 / 2 \<and> (1 / 2 :: real) \<le> 1 \<and> (1::nat) < 2 \<and>
   sqrt ((real 1 - real 2 / 2)\<^sup>2 + (real 1 - real 2 / 2)\<^sup>2)
     < sqrt ((real 0 - real 2 / 2)\<^sup>2 + (real 0 - real 2 / 2)\<^sup>2) \<and>
   red (make_vignette_mask 2 2 (1 / 2) ! 0 ! 0) = 1 / 2 \<and>
   red (make_vignette_mask 2 2 (1 / 2) ! 1 ! 1) = 1 \<and>
   red (make_vignette_mask 2 2 (1 / 2) ! 0 ! 0) \<le> red (make_vignette_mask 2 2 (1 / 2) ! 1 ! 1)"
proof -
  have d: "sqrt ((real 1 - real 2 / 2)\<^sup>2 + (real 1 - real 2 / 2)\<^sup>2)
     < sqrt ((real 0 - real 2 / 2)\<^sup>2 + (real 0 - real 2 / 2)\<^sup>2)"
    by simp
  have h: "(0::nat) < 2" "(0::real) \<le> 1 / 2" "(1 / 2 :: real) \<le> 1" "(1::nat) < 2"
    by simp_all
  have m: "red (make_vignette_mask 2 2 (1 / 2) ! 0 ! 0) \<le> red (make_vignette_mask 2 2 (1 / 2) ! 1 ! 1)"
    using vignette_monotone [OF h(1) h(1) h(2) h(3) h(4) h(4) h(1) h(1) d]
    by (simp add: Let_def)
  have v: "red (make_vignette_mask 2 2 (1 / 2) ! 0 ! 0) = 1 / 2"
    "red (make_vignette_mask 2 2 (1 / 2) ! 1 ! 1) = 1"
    using make_vignette_mask_nth [OF h(1) h(1), of "1 / 2"]
      make_vignette_mask_nth [OF h(4) h(4), of "1 / 2"]
    by (simp_all only: vign_2_2_centre vign_2_2_corner rgb_triple)
  show ?thesis using d h m v by (simp only: simp_thms)
qed


lemma vign_centre:
  assumes "even w" "even h"
  shows "vign w h strength (w div 2) (h div 2) = 1"
proof -
  have e: "real (w div 2) = real w / 2" "real (h div 2) = real h / 2"
    using assms by (simp_all add: real_of_nat_div)
  show ?thesis unfolding vign_def Let_def e by (simp add: clip_def)
qed

lemma vign_corner:
  assumes "0 < w" "0 \<le> strength" "strength \<le> 1"
  shows "vign w h strength 0 0 = 1 - strength"
proof -
  let ?m = "sqrt (real w / 2 * (real w / 2) + real h / 2 * (real h / 2))"
  have m: "0 < ?m" using assms(1) by (intro max_dist_pos) simp
  have "sqrt ((real 0 - real w / 2)\<^sup>2 + (real 0 - real h / 2)\<^sup>2) = ?m"
    by (simp add: power2_eq_square)
  then have "vign w h strength 0 0 = clip (1 - strength * (?m / ?m)) 0 1"
    by (simp only: vign_def Let_def)
  also have "\<dots> = clip (1 - strength) 0 1" using m by simp
  also have "\<dots> = 1 - strength" using assms(2,3) by (simp add: clip_def)
  finally show ?thesis .
qed

lemma dist_le_max_dist:
  assumes "x < w" "y < h"
  shows "sqrt ((real x - real w / 2)\<^sup>2 + (real y - real h / 2)\<^sup>2)
          \<le> sqrt ((real w / 2)\<^sup>2 + (real h / 2)\<^sup>2)"
proof -
  have "0 \<le> real x" "real x \<le> real w" using assms(1) by simp_all
  then have "\<bar>real x - real w / 2\<bar> \<le> \<bar>real w / 2\<bar>" by linarith
  then have 1: "(real x - real w / 2)\<^sup>2 \<le> (real w / 2)\<^sup>2" by (rule abs_le_square_iff [THEN iffD1])
  have "0 \<le> real y" "real y \<le> real h" using assms(2) by simp_all
  then have "\<bar>real y - real h / 2\<bar> \<le> \<bar>real h / 2\<bar>" by linarith
  then have 2: "(real y - real h / 2)\<^sup>2 \<le> (real h / 2)\<^sup>2" by (rule abs_le_square_iff [THEN iffD1])
  show ?thesis using 1 2 by (intro real_sqrt_le_mono add_mono)
qed

text \<open>
  C3, as the code has it. The mask of a positive width and height and a strength in
  [0, 1] holds at the pixel (x, y), in all three channels, the value
  \<open>clip (1 - strength * (distance / max_distance)) 0 1\<close>. No pixel is farther from the
  centre than the corner pixel (0, 0), whose value is \<open>1 - strength\<close>. The pixel
  (width div 2, height div 2) has the value 1 when the width and the height are even.
\<close>

theorem vignette_mask_values:
  assumes "0 < w" and "0 < h" and "0 \<le> strength" and "strength \<le> 1"
    and "x < w" and "y < h"
  shows "let mask = make_vignette_mask w h strength;
             max_distance = sqrt ((real w / 2)\<^sup>2 + (real h / 2)\<^sup>2);
             distance = sqrt ((real x - real w / 2)\<^sup>2 + (real y - real h / 2)\<^sup>2);
             v = clip (1 - strength * (distance / max_distance)) 0 1
         in shape_ok h w mask \<and> mask ! y ! x = (v, v, v) \<and> distance \<le> max_distance \<and>
            mask ! 0 ! 0 = (1 - strength, 1 - strength, 1 - strength) \<and>
            (even w \<and> even h \<longrightarrow> mask ! (h div 2) ! (w div 2) = (1, 1, 1))"
proof -
  have 1: "make_vignette_mask w h strength ! y ! x =
      (vign w h strength x y, vign w h strength x y, vign w h strength x y)"
    using assms(6,5) by (rule make_vignette_mask_nth)
  have 2: "vign w h strength x y =
      clip (1 - strength * (sqrt ((real x - real w / 2)\<^sup>2 + (real y - real h / 2)\<^sup>2)
                             / sqrt ((real w / 2)\<^sup>2 + (real h / 2)\<^sup>2))) 0 1"
    by (simp add: vign_def Let_def power2_eq_square)
  have 3: "make_vignette_mask w h strength ! 0 ! 0 = (1 - strength, 1 - strength, 1 - strength)"
    using assms by (simp add: make_vignette_mask_nth vign_corner)
  have 4: "make_vignette_mask w h strength ! (h div 2) ! (w div 2) = (1, 1, 1)"
    if "even w" "even h"
    using assms(1,2) that by (simp add: make_vignette_mask_nth vign_centre)
  show ?thesis
    using 1 2 3 4 dist_le_max_dist [OF assms(5,6)] by (simp add: Let_def)
qed

theorem vignette_mask_values_witness:
  "(0::nat) < 2 \<and> (0::real) \<le> 1 / 2 \<and> (1 / 2 :: real) \<le> 1 \<and> (1::nat) < 2 \<and> even (2::nat) \<and>
   make_vignette_mask 2 2 (1 / 2) ! 0 ! 0 = (1 / 2, 1 / 2, 1 / 2) \<and>
   make_vignette_mask 2 2 (1 / 2) ! (2 div 2) ! (2 div 2) = (1, 1, 1)"
proof -
  have h: "(0::nat) < 2" "(0::real) \<le> 1 / 2" "(1 / 2 :: real) \<le> 1" "(1::nat) < 2" "even (2::nat)"
    by simp_all
  note t = vignette_mask_values [OF h(1) h(1) h(2) h(3) h(4) h(4), unfolded Let_def]
  have a: "make_vignette_mask 2 2 (1 / 2) ! 0 ! 0 = (1 / 2, 1 / 2, 1 / 2)"
    using t by simp
  have b: "make_vignette_mask 2 2 (1 / 2) ! (2 div 2) ! (2 div 2) = (1, 1, 1)"
    using t h(5) by blast
  show ?thesis using h a b by (simp only: simp_thms)
qed

text \<open>
  C3 as stated fails where the width or the height is odd: the only pixel of the 1 x 1
  mask of strength 1/2 has the value 1/2, and the centre pixel (1, 1) of the 3 x 3 mask
  of strength 1/2 has the value 5/6.
\<close>

lemma vign_3_3_centre: "vign 3 3 (1 / 2) 1 1 = 5 / 6"
proof -
  have "sqrt (1 / 2) / sqrt (9 / 2) = sqrt ((1 / 2) / (9 / 2))"
    by (simp only: real_sqrt_divide)
  also have "\<dots> = sqrt ((1 / 3)\<^sup>2)" by (simp add: power2_eq_square)
  also have "\<dots> = 1 / 3" by (simp only: real_sqrt_abs)
  finally have r: "sqrt (1 / 2) / sqrt (9 / 2) = 1 / 3" .
  have "vign 3 3 (1 / 2) 1 1 = clip (1 - (1 / 2) * (sqrt (1 / 2) / sqrt (9 / 2))) 0 1"
    by (simp add: vign_def Let_def power2_eq_square)
  also have "\<dots> = 5 / 6" by (simp only: r) (simp add: clip_def)
  finally show ?thesis .
qed

theorem vignette_centre_counterexample:
  "make_vignette_mask 1 1 (1 / 2) = [[(1 / 2, 1 / 2, 1 / 2)]] \<and>
   make_vignette_mask 3 3 (1 / 2) ! 1 ! 1 = (5 / 6, 5 / 6, 5 / 6)"
proof -
  have "vign 1 1 (1 / 2) 0 0 = 1 / 2"
    using vign_corner [of 1 "1 / 2" 1] by simp
  then have 1: "make_vignette_mask 1 1 (1 / 2) = [[(1 / 2, 1 / 2, 1 / 2)]]"
    by (simp add: make_vignette_mask_def Let_def)
  have lt: "(1::nat) < 3" by simp
  have 2: "make_vignette_mask 3 3 (1 / 2) ! 1 ! 1 = (5 / 6, 5 / 6, 5 / 6)"
    using make_vignette_mask_nth [OF lt lt, of "1 / 2"] by (simp only: vign_3_3_centre)
  show ?thesis using 1 2 by (rule conjI)
qed

lemma zip_array_nth:
  assumes "shape_ok h w a" "shape_ok h w b" "y < h" "x < w"
  shows "zip_array f a b ! y ! x = f (a ! y ! x) (b ! y ! x)"
  using assms by (auto simp: zip_array_def shape_ok_def list_all_length)

lemma shape_ok_zip_array:
  "shape_ok h w a \<Longrightarrow> shape_ok h w b \<Longrightarrow> shape_ok h w (zip_array f a b)"
  by (auto simp: zip_array_def shape_ok_def list_all_length)

lemma shape_ok_asarray [simp]: "shape_ok h w (asarray im) = shape_ok h w im"
  by (simp add: asarray_def)

lemma vignette_stage_nth:
  assumes "shape_ok h w pil2" "shape_ok h w vmask" "y < h" "x < w"
  shows "vignette_stage vmask pil2 ! y ! x =
           zip_rgb vignette_sample (map_rgb uint (pil2 ! y ! x)) (vmask ! y ! x)"
proof -
  have len: "y < length pil2" "x < length (pil2 ! y)"
    using assms by (auto simp: shape_ok_def list_all_length)
  have "vignette_stage vmask pil2 ! y ! x = zip_rgb vignette_sample (asarray pil2 ! y ! x) (vmask ! y ! x)"
    unfolding vignette_stage_def using assms by (intro zip_array_nth) simp_all
  then show ?thesis using len by (simp add: asarray_def map_array_nth)
qed

lemma vignette_white_nth:
  assumes "y < h" "x < w"
  shows "vignette_stage (make_vignette_mask w h strength) (image_new w h (255, 255, 255)) ! y ! x =
           (let v = vignette_sample 255 (vign w h strength x y) in (v, v, v))"
proof -
  have "vignette_stage (make_vignette_mask w h strength) (image_new w h (255, 255, 255)) ! y ! x =
      zip_rgb vignette_sample (map_rgb uint (image_new w h (255, 255, 255 :: byte) ! y ! x))
        (make_vignette_mask w h strength ! y ! x)"
    using assms by (intro vignette_stage_nth) simp_all
  then show ?thesis
    using assms by (simp add: image_new_def make_vignette_mask_nth zip_rgb_def map_rgb_def Let_def)
qed

lemma vignette_sample_white:
  assumes "real_of_int k \<le> 255 * m" "255 * m < real_of_int k + 1" "0 \<le> k" "k \<le> 255"
  shows "vignette_sample 255 m = k"
proof -
  have c: "clip (255 * m) 0 255 = (if 255 * m \<le> 255 then 255 * m else 255)"
    using assms(1,3) by (simp add: clip_def min_def max_def)
  have f: "\<lfloor>clip (255 * m) 0 255\<rfloor> = k"
  proof (cases "255 * m \<le> 255")
    case True
    then show ?thesis using assms(1,2) by (simp add: c floor_unique)
  next
    case False
    then have "k = 255" using assms(2,4) by linarith
    then show ?thesis using False by (simp add: c)
  qed
  have "0 \<le> clip (255 * m) 0 255" using clip_bounds [of 0 255 "255 * m"] by simp
  then have "trunc (clip (255 * m) 0 255) = k" using f by (simp add: trunc_def)
  then show ?thesis using assms(3,4) by (simp add: vignette_sample_def astype_uint8_def mult.commute)
qed

lemma vign_100_centre: "vign 100 100 0.5 50 50 = 1"
  using vign_centre [of 100 100 "0.5"] by simp

lemma vign_100_0_0: "vign 100 100 0.5 0 0 = 1 / 2"
  using vign_corner [of 100 "0.5" 100] by simp

lemma vign_100_unfold:
  "vign 100 100 0.5 x y =
     clip (1 - 0.5 * (sqrt ((real x - 50)\<^sup>2 + (real y - 50)\<^sup>2) / sqrt 5000)) 0 1"
  by (simp add: vign_def Let_def)

lemma vign_100_99_99: "vign 100 100 0.5 99 99 = 51 / 100"
proof -
  have "sqrt 4802 / sqrt 5000 = sqrt (4802 / 5000)"
    by (simp only: real_sqrt_divide)
  also have "\<dots> = sqrt ((49 / 50)\<^sup>2)" by (simp add: power2_eq_square)
  also have "\<dots> = 49 / 50" by (simp only: real_sqrt_abs)
  finally have r: "sqrt 4802 / sqrt 5000 = 49 / 50" .
  have "vign 100 100 0.5 99 99 = clip (1 - 0.5 * (sqrt 4802 / sqrt 5000)) 0 1"
    unfolding vign_100_unfold by simp
  also have "\<dots> = 51 / 100" unfolding r by (simp add: clip_def)
  finally show ?thesis .
qed

lemma sqrt_4901_bounds: "252 / 255 < sqrt 4901 / sqrt 5000" "sqrt 4901 / sqrt 5000 \<le> 254 / 255"
proof -
  have e: "sqrt 4901 / sqrt 5000 = sqrt (4901 / 5000)"
    by (simp only: real_sqrt_divide)
  have "(252 / 255)\<^sup>2 < (4901 / 5000 :: real)" by (simp add: power2_eq_square)
  then show "252 / 255 < sqrt 4901 / sqrt 5000"
    unfolding e by (rule real_less_rsqrt)
  have "(4901 / 5000 :: real) \<le> (254 / 255)\<^sup>2" by (simp add: power2_eq_square)
  then show "sqrt 4901 / sqrt 5000 \<le> 254 / 255"
    unfolding e by (intro real_le_lsqrt) simp_all
qed

lemma edge_bounds:
  fixes r v :: real
  assumes "252 / 255 < r" "r \<le> 254 / 255" "v = clip (1 - 0.5 * r) 0 1"
  shows "128 \<le> 255 * v" "255 * v < 129"
proof -
  have "0 \<le> 1 - 0.5 * r" "1 - 0.5 * r \<le> 1" using assms(1,2) by simp_all
  then have v: "v = 1 - 0.5 * r" using assms(3) by (simp add: clip_def)
  show "128 \<le> 255 * v" using assms(2) unfolding v by simp
  show "255 * v < 129" using assms(1) unfolding v by simp
qed

lemma vign_100_edge_bounds:
  assumes "v = clip (1 - 0.5 * (sqrt 4901 / sqrt 5000)) 0 1"
  shows "128 \<le> 255 * v" "255 * v < 129"
  using edge_bounds [OF sqrt_4901_bounds assms] by blast+

lemma vign_100_0_99: "vignette_sample 255 (vign 100 100 0.5 99 0) = 128"
  "vignette_sample 255 (vign 100 100 0.5 0 99) = 128"
proof -
  have 1: "vign 100 100 0.5 99 0 = clip (1 - 0.5 * (sqrt 4901 / sqrt 5000)) 0 1"
    unfolding vign_100_unfold by simp
  have 2: "vign 100 100 0.5 0 99 = clip (1 - 0.5 * (sqrt 4901 / sqrt 5000)) 0 1"
    unfolding vign_100_unfold by simp
  show "vignette_sample 255 (vign 100 100 0.5 99 0) = 128"
    using vign_100_edge_bounds [OF 1] by (intro vignette_sample_white) simp_all
  show "vignette_sample 255 (vign 100 100 0.5 0 99) = 128"
    using vign_100_edge_bounds [OF 2] by (intro vignette_sample_white) simp_all
qed

lemma vignette_sample_100:
  "vignette_sample 255 (vign 100 100 0.5 50 50) = 255"
  "vignette_sample 255 (vign 100 100 0.5 0 0) = 127"
  "vignette_sample 255 (vign 100 100 0.5 99 99) = 130"
  unfolding vign_100_centre vign_100_0_0 vign_100_99_99
  by (simp_all add: vignette_sample_def clip_def trunc_def astype_uint8_def)

lemma white_100_corner: 
  "vignette_stage (make_vignette_mask 100 100 0.5) (image_new 100 100 (255, 255, 255)) ! 99 ! 99
     = (130, 130, 130)"
proof -
  have lt: "(99::nat) < 100" by simp
  show ?thesis
    unfolding vignette_white_nth [OF lt lt] Let_def vignette_sample_100 by (rule refl)
qed

text \<open>
  C7, as the code has it. The vignette stage with the mask of strength 0.5, applied to
  the white 100 x 100 image, leaves the pixel (50, 50) at 255 in every channel; the
  four corner pixels are not alike, since the centre of the mask is (50, 50) and not
  (49.5, 49.5): the corner (0, 0) becomes 127, the corners (99, 0) and (0, 99) become
  128 and the corner (99, 99) becomes 130.
\<close>

theorem vignette_white_100:
  "let out = vignette_stage (make_vignette_mask 100 100 0.5) (image_new 100 100 (255, 255, 255))
   in out ! 50 ! 50 = (255, 255, 255) \<and>
      out ! 0 ! 0 = (127, 127, 127) \<and>
      out ! 0 ! 99 = (128, 128, 128) \<and>
      out ! 99 ! 0 = (128, 128, 128) \<and>
      out ! 99 ! 99 = (130, 130, 130)"
proof -
  have lt: "(0::nat) < 100" "(50::nat) < 100" "(99::nat) < 100" by simp_all
  show ?thesis
    unfolding Let_def
      vignette_white_nth [OF lt(2) lt(2)] vignette_white_nth [OF lt(1) lt(1)]
      vignette_white_nth [OF lt(1) lt(3)] vignette_white_nth [OF lt(3) lt(1)]
      vignette_white_nth [OF lt(3) lt(3)] vignette_sample_100 vign_100_0_99
    by simp
qed

text \<open>
  C7 as stated fails at the corner (99, 99): its samples are 130, which is not within 1
  of 128.
\<close>

theorem vignette_white_100_counterexample:
  "red (vignette_stage (make_vignette_mask 100 100 0.5)
          (image_new 100 100 (255, 255, 255)) ! 99 ! 99) = 130 \<and>
   \<not> \<bar>red (vignette_stage (make_vignette_mask 100 100 0.5)
          (image_new 100 100 (255, 255, 255)) ! 99 ! 99) - round (255 * 0.5 :: real)\<bar> \<le> 1"
  unfolding white_100_corner by (simp add: round_def)

lemma byte_frameI:
  assumes "shape_ok h w a" "\<And>y x. y < h \<Longrightarrow> x < w \<Longrightarrow> byte_pixel (a ! y ! x)"
  shows "byte_frame a"
  using assms by (auto simp: byte_frame_def shape_ok_def list_all_length)

lemma byte_frame_map_array:
  assumes "\<And>v. byte_sample (f v)"
  shows "byte_frame (map_array (map_rgb f) a)"
  using assms
  by (auto simp: byte_frame_def map_array_def list_all_iff byte_pixel_def)

lemma byte_pixel_zip_rgb:
  assumes "\<And>u v. byte_sample (f u v)"
  shows "byte_pixel (zip_rgb f p q)"
  using assms by (cases p; cases q) (simp add: zip_rgb_def byte_pixel_def)

lemma byte_frame_zip_array:
  assumes "\<And>u v. byte_sample (f u v)"
  shows "byte_frame (zip_array (zip_rgb f) a b)"
  using byte_pixel_zip_rgb [of f, OF assms]
  by (auto simp: byte_frame_def zip_array_def list_all_length)

lemma byte_sample_uint [simp]: "byte_sample (uint (x :: byte))"
proof -
  have "uint x < 2 ^ LENGTH(8)" by (rule uint_bounded)
  then show ?thesis by (simp add: byte_sample_def)
qed

lemma byte_frame_asarray [simp]: "byte_frame (asarray im)"
  unfolding asarray_def by (rule byte_frame_map_array) simp

lemma contrast_sample_no_wrap:
  "contrast_sample c = trunc (clip (128 + 1.06 * real_of_int (astype_int16 (c - 128)) + 4) 0 255)"
  unfolding contrast_sample_def by (rule astype_uint8_id [OF byte_trunc_clip])

lemma vignette_sample_no_wrap:
  "vignette_sample c m = trunc (clip (real_of_int c / 255 * m * 255) 0 255)"
  unfolding vignette_sample_def by (rule astype_uint8_id [OF byte_trunc_clip])

lemma byte_clip_int: "byte_sample (clip (v :: int) 0 255)"
  by (simp add: byte_sample_def clip_def)

lemma grain_sample_no_wrap:
  "grain_sample c n = clip (astype_int16 (astype_int16 c + n)) 0 255"
  unfolding grain_sample_def by (rule astype_uint8_id [OF byte_clip_int])

lemma byte_frame_chromatic:
  assumes "shape_ok h w frame" "byte_frame frame"
  shows "byte_frame (chromatic (int w) (map_array (map_rgb astype_int16) frame))"
proof (rule byte_frameI)
  let ?img = "map_array (map_rgb astype_int16) frame"
  have sh: "shape_ok h w ?img" using assms(1) by simp
  show "shape_ok h w (chromatic (int w) ?img)" using sh by (rule shape_ok_chromatic)
  fix y x assume yx: "y < h" "x < w"
  have w: "0 < int w" using yx by simp
  have len: "length frame = h" "length (frame ! y) = w"
    using assms(1) yx by (auto simp: shape_ok_def list_all_length)
  have b: "byte_pixel (frame ! y ! x')" if "x' < w" for x'
    using assms(2) len that yx by (simp add: byte_frame_nth)
  have i: "nat ((int x + shift_of (int w)) mod int w) < w"
    "nat ((int x - shift_of (int w)) mod int w) < w"
    using w by (simp_all add: nat_less_iff)
  show "byte_pixel (chromatic (int w) ?img ! y ! x)"
    using b [OF i(1)] b [OF i(2)] b [OF yx(2)] len yx i
    by (simp add: chromatic_nth [OF sh yx] map_array_nth byte_pixel_def)
qed

text \<open>
  C4. On a frame of 8-bit samples of the bound dimensions every stage of the per-frame
  transform yields samples in [0, 255]: the channel shift, the contrast and brightness
  stage, the grain (for any noise array), the unsharp mask and the scanline compositing
  (PIL images hold 8-bit samples), the vignette (for any mask) and so the transform as a
  whole. The casts to uint8 in the three computed stages never wrap: each acts on a value
  that the clipping has already brought into [0, 255]. No operation of the model can
  fail; the one division by a computed value, by \<open>max_dist\<close> in the vignette mask, has a
  positive divisor as soon as the mask has a pixel.
\<close>

theorem stages_in_range:
  assumes "shape_ok h w frame" and "byte_frame frame"
  shows "byte_frame (chromatic (int w) (map_array (map_rgb astype_int16) frame)) \<and>
         byte_frame (contrast a) \<and>
         byte_frame (grain noise a) \<and>
         byte_frame (asarray (sharpen pil a)) \<and>
         byte_frame (asarray (scanlines pil s im)) \<and>
         byte_frame (vignette_stage v im) \<and>
         byte_frame (effect pil p noise frame) \<and>
         contrast_sample c = trunc (clip (128 + 1.06 * real_of_int (astype_int16 (c - 128)) + 4) 0 255) \<and>
         grain_sample c n = clip (astype_int16 (astype_int16 c + n)) 0 255 \<and>
         vignette_sample c m = trunc (clip (real_of_int c / 255 * m * 255) 0 255) \<and>
         (0 < w \<longrightarrow> 0 < sqrt (real w / 2 * (real w / 2) + real h / 2 * (real h / 2)))"
proof -
  have 1: "byte_frame (chromatic (int w) (map_array (map_rgb astype_int16) frame))"
    using assms by (rule byte_frame_chromatic)
  have cs: "byte_sample (contrast_sample u)" for u
    unfolding contrast_sample_no_wrap by (rule byte_trunc_clip)
  have gs: "byte_sample (grain_sample u u')" for u u'
    unfolding grain_sample_no_wrap by (rule byte_clip_int)
  have vs: "byte_sample (vignette_sample u u')" for u u'
    unfolding vignette_sample_no_wrap by (rule byte_trunc_clip)
  have 2: "byte_frame (contrast a)"
    unfolding contrast_def by (rule byte_frame_map_array) (rule cs)
  have 3: "byte_frame (grain noise a)"
    unfolding grain_def by (rule byte_frame_zip_array) (rule gs)
  have 6: "byte_frame (vignette_stage v' im')" for v' im'
    unfolding vignette_stage_def by (rule byte_frame_zip_array) (rule vs)
  have 7: "byte_frame (effect pil p noise frame)"
    unfolding effect_def Let_def by (rule 6)
  have 8: "0 < sqrt (real w / 2 * (real w / 2) + real h / 2 * (real h / 2))" if "0 < w"
    using that by (intro max_dist_pos) simp
  show ?thesis
    using 1 2 3 6 7 8 contrast_sample_no_wrap grain_sample_no_wrap vignette_sample_no_wrap
    by simp
qed

theorem stages_in_range_witness:
  "shape_ok 1 3 wframe \<and> byte_frame wframe \<and>
   byte_frame (chromatic 3 (map_array (map_rgb astype_int16) wframe)) \<and>
   byte_frame (grain wnoise (contrast wframe)) \<and>
   grain wnoise (contrast wframe) = [[(6, 17, 28), (8, 17, 31), (255, 0, 30)]] \<and>
   byte_frame (effect wpil wpipeline wnoise wframe)"
proof -
  have h: "shape_ok 1 3 wframe" "byte_frame wframe"
    by (simp_all add: wframe_def shape_ok_def byte_frame_def byte_pixel_def byte_sample_def)
  note t = stages_in_range [OF h, of "contrast wframe" wnoise wpil _ _ _ wpipeline]
  have g: "grain wnoise (contrast wframe) = [[(6, 17, 28), (8, 17, 31), (255, 0, 30)]]"
    by (simp add: grain_def contrast_def wframe_def wnoise_def zip_array_def zip_rgb_def
        map_array_def map_rgb_def grain_sample_def contrast_sample_def astype_int16_def
        astype_uint8_def clip_def trunc_def)
  have c: "byte_frame (chromatic 3 (map_array (map_rgb astype_int16) wframe))"
    using t by simp
  show ?thesis using h t c g by (simp only: simp_thms)
qed

lemma vign_range: "0 \<le> vign w h strength x y \<and> vign w h strength x y \<le> 1"
  unfolding vign_def Let_def by (rule clip_bounds) simp

text \<open>
  C9, as the code has it. The mask generators do not reject a strength or an intensity
  outside [0, 1]. For every strength the vignette generator returns a mask of the
  requested shape whose values are clamped to [0, 1]. For every intensity whose alpha
  \<^verbatim>\<open>int(255 * intensity)\<close> fits a C int, with \<open>line_height \<ge> 1\<close> and \<open>gap \<ge> 0\<close>, the
  scanline generator returns the blur of a band image; that image has the requested shape,
  and its bands carry the alpha clipped to 0..255. (Strength and intensity are real
  numbers here: infinities and NaN are not covered.)
\<close>

theorem generators_accept_any_parameter:
  "shape_ok h w (make_vignette_mask w h strength) \<and>
   (\<forall>y<h. \<forall>x<w. \<exists>v. make_vignette_mask w h strength ! y ! x = (v, v, v) \<and> 0 \<le> v \<and> v \<le> 1) \<and>
   (1 \<le> line_height \<and> 0 \<le> gap \<and> c_int (alpha_line intensity) \<longrightarrow>
      (\<exists>img. make_scanline_image pil w h intensity line_height gap
                = Some (Inr (gaussian_blur pil img)) \<and>
             scanline_bands w h intensity line_height gap = Some (Inr img) \<and>
             shape_ok h w img \<and>
             (\<forall>r<h. \<forall>x<w. img ! r ! x =
                (if int r mod (line_height + gap) < line_height
                 then (0, 0, 0, word_of_int (clip (alpha_line intensity) 0 255))
                 else (0, 0, 0, 0)))))"
proof -
  have 2: "\<exists>v. make_vignette_mask w h strength ! y ! x = (v, v, v) \<and> 0 \<le> v \<and> v \<le> 1"
    if "y < h" "x < w" for y x
    using that vign_range [of w h strength x y] by (simp add: make_vignette_mask_nth)
  have 3: "\<exists>img. make_scanline_image pil w h intensity line_height gap
                = Some (Inr (gaussian_blur pil img)) \<and>
             scanline_bands w h intensity line_height gap = Some (Inr img) \<and>
             shape_ok h w img \<and>
             (\<forall>r<h. \<forall>x<w. img ! r ! x =
                (if int r mod (line_height + gap) < line_height
                 then (0, 0, 0, word_of_int (clip (alpha_line intensity) 0 255))
                 else (0, 0, 0, 0)))"
    if "1 \<le> line_height" "0 \<le> gap" "c_int (alpha_line intensity)"
  proof -
    from scanline_bands_result [OF that, of w h] obtain img where
      img: "scanline_bands w h intensity line_height gap = Some (Inr img)"
        "shape_ok h w img"
        "\<forall>r<h. \<forall>x<w. img ! r ! x =
           (if int r mod (line_height + gap) < line_height
            then (0, 0, 0, ink (alpha_line intensity)) else (0, 0, 0, 0))"
      by blast
    have "make_scanline_image pil w h intensity line_height gap
            = Some (Inr (gaussian_blur pil img))"
      using img(1) by (simp add: make_scanline_image_def)
    then show ?thesis using img by (auto simp: ink_def)
  qed
  show ?thesis using 2 3 by simp
qed

lemma vign_origin:
  assumes "0 < w"
  shows "vign w h strength 0 0 = clip (1 - strength) 0 1"
proof -
  let ?m = "sqrt (real w / 2 * (real w / 2) + real h / 2 * (real h / 2))"
  have m: "0 < ?m" using assms by (intro max_dist_pos) simp
  have "sqrt ((real 0 - real w / 2)\<^sup>2 + (real 0 - real h / 2)\<^sup>2) = ?m"
    by (simp add: power2_eq_square)
  then have "vign w h strength 0 0 = clip (1 - strength * (?m / ?m)) 0 1"
    by (simp only: vign_def Let_def)
  also have "\<dots> = clip (1 - strength) 0 1" using m by simp
  finally show ?thesis .
qed

lemma vign_1_1_2: "vign 1 1 2 0 0 = 0" "vign (Suc 0) (Suc 0) 2 0 0 = 0"
  using vign_origin [of 1 1 2] vign_origin [of "Suc 0" "Suc 0" 2]
  by (simp_all add: clip_def)

lemma alpha_line_2: "alpha_line 2 = 510"
  by (simp add: alpha_line_def binary64_numeral round_even_def trunc_def)

theorem generators_accept_any_parameter_witness:
  "(0::nat) < 1 \<and> (1::int) \<le> 1 \<and> (0::int) \<le> 2 \<and> c_int (alpha_line 2) \<and>
   make_vignette_mask 1 1 2 ! 0 ! 0 = (0, 0, 0) \<and>
   (\<exists>img. make_scanline_image wpil 1 1 2 1 2 = Some (Inr (gaussian_blur wpil img)) \<and>
      shape_ok 1 1 img \<and> img ! 0 ! 0 = (0, 0, 0, 255))"
proof -
  have h: "(0::nat) < 1" "(1::int) \<le> 1" "(0::int) \<le> 2" "c_int (alpha_line 2)"
    by (simp_all add: alpha_line_2 c_int_def)
  note t = generators_accept_any_parameter [of 1 1 2 1 2 2 wpil]
  have b: "make_vignette_mask 1 1 2 ! 0 ! 0 = (0, 0, 0)"
    using make_vignette_mask_nth [OF h(1) h(1), of 2] by (simp only: vign_1_1_2)
  have "\<exists>img. make_scanline_image wpil 1 1 2 1 2 = Some (Inr (gaussian_blur wpil img)) \<and>
      shape_ok 1 1 img \<and>
      (\<forall>r<1. \<forall>x<1. img ! r ! x =
         (if int r mod (1 + 2) < 1
          then (0, 0, 0, word_of_int (clip (alpha_line 2) 0 255)) else (0, 0, 0, 0)))"
    using t h(2,3,4) by blast
  then have c: "\<exists>img. make_scanline_image wpil 1 1 2 1 2 = Some (Inr (gaussian_blur wpil img)) \<and>
      shape_ok 1 1 img \<and> img ! 0 ! 0 = (0, 0, 0, 255)"
    by (auto simp: alpha_line_2 clip_def)
  show ?thesis using h b c by (simp only: simp_thms)
qed

text \<open>
  C9 as stated fails: the strength 2 is outside [0, 1], and the vignette generator
  returns the 1 x 1 mask with the value 0 for it.
\<close>

theorem no_rejection_counterexample:
  "\<not> (0 \<le> (2::real) \<and> (2::real) \<le> 1) \<and> make_vignette_mask 1 1 2 = [[(0, 0, 0)]]"
  by (simp add: make_vignette_mask_def vign_1_1_2)

lemma effect_heap_eq:
  assumes "cells s frame = Some (IntArray fr)"
  shows "\<exists>s'. effect_heap pil p noise frame s = Some (next_free s + 12, s') \<and>
           (\<forall>a. a < next_free s \<longrightarrow> cells s' a = cells s a) \<and>
           cells s' (next_free s + 12) = Some (IntArray (effect pil p noise fr))"
  using assms
  by (simp add: effect_heap_def alloc_def store_def rgba_at_def effect_def scanlines_def
      Let_def)


lemma shape_ok_fromarray [simp]: "shape_ok h w (fromarray a) = shape_ok h w a"
  by (simp add: fromarray_def)

lemma shape_ok_effect:
  assumes "shape_ok h w fr" "shape_ok h w noise" "shape_ok h w (scanline_img p)"
    "shape_ok h w (vignette p)" "keeps_size pil h w"
  shows "shape_ok h w (effect pil p noise fr)"
proof -
  let ?c = "grain noise (contrast (chromatic (int (p_width p)) (map_array (map_rgb astype_int16) fr)))"
  have "shape_ok h w (chromatic (int (p_width p)) (map_array (map_rgb astype_int16) fr))"
    using assms(1) by (intro shape_ok_chromatic) simp
  then have "shape_ok h w (contrast (chromatic (int (p_width p)) (map_array (map_rgb astype_int16) fr)))"
    by (simp add: contrast_def)
  then have c: "shape_ok h w ?c"
    unfolding grain_def using assms(2) by (rule shape_ok_zip_array)
  have u: "shape_ok h w (sharpen pil ?c)"
    using c assms(5) by (simp add: sharpen_def keeps_size_def)
  have "shape_ok h w (alpha_composite pil (map_array to_rgba (sharpen pil ?c)) (scanline_img p))"
    using u assms(3,5) by (simp add: keeps_size_def)
  then have "shape_ok h w (scanlines pil (scanline_img p) (sharpen pil ?c))"
    by (simp add: scanlines_def Let_def)
  then have "shape_ok h w (vignette_stage (vignette p) (scanlines pil (scanline_img p) (sharpen pil ?c)))"
    unfolding vignette_stage_def using assms(4) by (intro shape_ok_zip_array) simp_all
  then show ?thesis by (simp add: effect_def Let_def)
qed

lemma alpha_line_factory: "alpha_line (binary64 0.08) = 20"
  by (simp add: alpha_line_def binary64_numeral binary64_fraction round_even_def trunc_def)

lemma frame_effect_factory_shapes:
  assumes "frame_effect_factory pil w h = Some (Inr p)" "keeps_size pil h w"
  shows "p_width p = w \<and> p_height p = h \<and> shape_ok h w (scanline_img p) \<and>
         shape_ok h w (vignette p)"
proof -
  have ci: "c_int (alpha_line (binary64 0.08))"
    unfolding alpha_line_factory by (simp add: c_int_def)
  obtain img where img: "scanline_bands w h (binary64 0.08) 1 2 = Some (Inr img)" "shape_ok h w img"
    using scanline_bands_result [of 1 2 "binary64 0.08" w h, OF _ _ ci] by auto
  have "p = \<lparr>p_width = w, p_height = h, scanline_img = gaussian_blur pil img,
             vignette = make_vignette_mask w h 0.45\<rparr>"
    using assms(1) img(1) by (simp add: frame_effect_factory_def make_scanline_image_def)
  then show ?thesis using img(2) assms(2) by (simp add: keeps_size_def)
qed

text \<open>
  C8. Let the pipeline be bound to the width \<open>w\<close> and the height \<open>h\<close>, the frame stored
  at the address \<open>frame\<close> have this shape, and the filters of PIL keep the size of an
  image. Then the per-frame transform returns the address of an array that was not in use
  before the call, which holds a frame of the same shape; after the call the input frame,
  and every other object that existed before, holds the samples it held before.
\<close>

theorem effect_keeps_input:
  assumes "frame_effect_factory pil w h = Some (Inr p)" and "keeps_size pil h w"
    and "cells s frame = Some (IntArray fr)" and "frame < next_free s"
    and "shape_ok h w fr" and "shape_ok h w noise"
  shows "\<exists>out s'. effect_heap pil p noise frame s = Some (out, s') \<and>
           next_free s \<le> out \<and>
           cells s' out = Some (IntArray (effect pil p noise fr)) \<and>
           shape_ok h w (effect pil p noise fr) \<and>
           cells s' frame = Some (IntArray fr) \<and>
           (\<forall>a<next_free s. cells s' a = cells s a)"
proof -
  from effect_heap_eq [OF assms(3), of pil p noise] obtain s' where
    s': "effect_heap pil p noise frame s = Some (next_free s + 12, s')"
      "\<forall>a. a < next_free s \<longrightarrow> cells s' a = cells s a"
      "cells s' (next_free s + 12) = Some (IntArray (effect pil p noise fr))"
    by blast
  have f: "shape_ok h w (scanline_img p)" "shape_ok h w (vignette p)"
    using frame_effect_factory_shapes [OF assms(1,2)] by simp_all
  have sh: "shape_ok h w (effect pil p noise fr)"
    using assms(5,6) f assms(2) by (rule shape_ok_effect)
  have "cells s' frame = Some (IntArray fr)"
    using s'(2) assms(3,4) by simp
  then show ?thesis using s' sh by auto
qed

lemma keeps_size_wpil: "keeps_size wpil h w"
  by (simp add: keeps_size_def wpil_def)

lemma image_new_3_1:
  "image_new 3 1 (0, 0, 0, 0::byte) = [[(0, 0, 0, 0), (0, 0, 0, 0), (0, 0, 0, 0)]]"
  by (simp add: image_new_def eval_nat_numeral)

lemma scan_loop_3_1:
  "scan_loop 3 1 1 2 (0, 0, 0, 20) [[(0, 0, 0, 0), (0, 0, 0, 0), (0, 0, 0, 0)]] 0
     = Some (Inr [[(0, 0, 0, 20), (0, 0, 0, 20), (0, 0, 0, 20)]])"
  by (simp add: scan_loop_step scan_loop_stop rectangle_alpha_20 fill_box_def)

lemma frame_effect_factory_3_1: "frame_effect_factory wpil 3 1 = Some (Inr wpipeline)"
proof -
  have "scanline_bands 3 1 (binary64 0.08) 1 2
      = Some (Inr [[(0, 0, 0, 20), (0, 0, 0, 20), (0, 0, 0, 20)]])"
    unfolding scanline_bands_def Let_def image_new_3_1 alpha_line_factory
    by (simp add: scan_loop_3_1)
  then show ?thesis
    by (simp add: frame_effect_factory_def make_scanline_image_def wpil_def wpipeline_def)
qed

theorem effect_keeps_input_witness:
  "frame_effect_factory wpil 3 1 = Some (Inr wpipeline) \<and> keeps_size wpil 1 3 \<and>
   cells wheap 0 = Some (IntArray wframe) \<and> 0 < next_free wheap \<and>
   shape_ok 1 3 wframe \<and> shape_ok 1 3 wnoise \<and>
   (\<exists>out s'. effect_heap wpil wpipeline wnoise 0 wheap = Some (out, s') \<and>
      next_free wheap \<le> out \<and> cells s' 0 = Some (IntArray wframe) \<and>
      shape_ok 1 3 (effect wpil wpipeline wnoise wframe))"
proof -
  have h: "cells wheap 0 = Some (IntArray wframe)" "0 < next_free wheap"
    "shape_ok 1 3 wframe" "shape_ok 1 3 wnoise"
    by (simp_all add: wheap_def wframe_def wnoise_def shape_ok_def)
  from effect_keeps_input [OF frame_effect_factory_3_1 keeps_size_wpil h]
  have "\<exists>out s'. effect_heap wpil wpipeline wnoise 0 wheap = Some (out, s') \<and>
      next_free wheap \<le> out \<and> cells s' 0 = Some (IntArray wframe) \<and>
      shape_ok 1 3 (effect wpil wpipeline wnoise wframe)"
    by blast
  then show ?thesis
    using h frame_effect_factory_3_1 keeps_size_wpil [of 1 3] by (simp only: simp_thms)
qed

end
